theory Spec2Isabelle
  imports Main "HOL-Library.AList" "HOL-Library.Multiset"
begin

section \<open>The platform: paths, errors, the file system\<close>

text \<open>
  The context module (\<^verbatim>\<open>context.js\<close>) reads a directory tree through Node's \<^verbatim>\<open>fs\<close> and
  \<^verbatim>\<open>path\<close> modules. A resolved absolute path is modelled by the list of its components,
  so \<^verbatim>\<open>path.join(dir, entry)\<close> appends one component: directory entries returned by
  \<^verbatim>\<open>readdir\<close> and the directory names of the constants table are single components.
\<close>

type_synonym path = "string list"

definition path_join :: "path \<Rightarrow> string \<Rightarrow> path" where
  "path_join dir entry = dir @ [entry]"

definition path_basename :: "path \<Rightarrow> string" where
  "path_basename p = (case rev p of [] \<Rightarrow> [] | x # _ \<Rightarrow> x)"

definition path_dirname :: "path \<Rightarrow> path" where
  "path_dirname p = butlast p"

definition path_string :: "path \<Rightarrow> string" where
  "path_string p = (if p = [] then ''/'' else concat (map (\<lambda>x. CHR ''/'' # x) p))"

text \<open>
  \<^verbatim>\<open>path.parse(base).ext\<close> and \<^verbatim>\<open>path.parse(base).name\<close> for a base name without
  separators: the extension starts at the last dot, unless there is no dot, the last dot
  is the first character, or the name is \<^verbatim>\<open>..\<close>.
\<close>

definition parse_ext :: "string \<Rightarrow> string" where
  "parse_ext base =
     (case dropWhile (\<lambda>ch. ch \<noteq> CHR ''.'') (rev base) of
        [] \<Rightarrow> []
      | _ # front \<Rightarrow>
          if front = [] \<or> base = ''..'' then []
          else CHR ''.'' # rev (takeWhile (\<lambda>ch. ch \<noteq> CHR ''.'') (rev base)))"

definition parse_name :: "string \<Rightarrow> string" where
  "parse_name base =
     (case dropWhile (\<lambda>ch. ch \<noteq> CHR ''.'') (rev base) of
        [] \<Rightarrow> base
      | _ # front \<Rightarrow> if front = [] \<or> base = ''..'' then base else rev front)"

text \<open>\<^verbatim>\<open>str.endsWith(suffix)\<close>.\<close>

definition endsWith :: "string \<Rightarrow> string \<Rightarrow> bool" where
  "endsWith str suffix = (take (length suffix) (rev str) = rev suffix)"

text \<open>The regular expressions \<^verbatim>\<open>/\.js$/i\<close> and \<^verbatim>\<open>/\.json$/i\<close>.\<close>

definition test_js :: "string \<Rightarrow> bool" where
  "test_js base =
     (case rev base of
        c3 # c2 # c1 # _ \<Rightarrow>
          c1 = CHR ''.'' \<and> (c2 = CHR ''j'' \<or> c2 = CHR ''J'') \<and> (c3 = CHR ''s'' \<or> c3 = CHR ''S'')
      | _ \<Rightarrow> False)"

definition test_json :: "string \<Rightarrow> bool" where
  "test_json base =
     (case rev base of
        c5 # c4 # c3 # c2 # c1 # _ \<Rightarrow>
          c1 = CHR ''.'' \<and> (c2 = CHR ''j'' \<or> c2 = CHR ''J'') \<and> (c3 = CHR ''s'' \<or> c3 = CHR ''S'')
          \<and> (c4 = CHR ''o'' \<or> c4 = CHR ''O'') \<and> (c5 = CHR ''n'' \<or> c5 = CHR ''N'')
      | _ \<Rightarrow> False)"

text \<open>
  A JavaScript error: the \<^verbatim>\<open>code\<close> of a file-system error (\<^verbatim>\<open>ENOENT\<close>, \<^verbatim>\<open>ENOTDIR\<close>, ...)
  is absent from an error made by \<^verbatim>\<open>new Error(message)\<close>. A rejected promise and a thrown
  exception are both the left summand of a result.
\<close>

record error =
  code :: "string option"
  message :: string

definition new_Error :: "string \<Rightarrow> error" where
  "new_Error msg = \<lparr>code = None, message = msg\<rparr>"

datatype stats = RegularFile | Directory | SymbolicLink | OtherFileType

definition isDirectory :: "stats \<Rightarrow> bool" where
  "isDirectory st = (st = Directory)"

definition isFile :: "stats \<Rightarrow> bool" where
  "isFile st = (st = RegularFile)"

text \<open>
  The file system as the module observes it: \<^verbatim>\<open>lstat\<close> (which does not follow symbolic
  links), \<^verbatim>\<open>readdir\<close> (the entries in the order the file system lists them) and
  \<^verbatim>\<open>readFile\<close> with encoding utf8.
\<close>

record filesystem =
  lstat :: "path \<Rightarrow> error + stats"
  readdir :: "path \<Rightarrow> error + string list"
  readFile :: "path \<Rightarrow> error + string"

text \<open>
  The constants of the extension tools library, which is not part of the repository:
  the seven directory names and the whitelists are parameters.
\<close>

record constants =
  RULES_DIRECTORY :: string
  PAGES_DIRECTORY :: string
  DATABASE_CONNECTIONS_DIRECTORY :: string
  CLIENTS_DIRECTORY :: string
  RESOURCE_SERVERS_DIRECTORY :: string
  EMAIL_TEMPLATES_DIRECTORY :: string
  EMAIL_PROVIDERS_DIRECTORY :: string
  PAGE_NAMES :: "string list"
  EMAIL_TEMPLATE_FILENAMES :: "string list"
  EMAIL_PROVIDER_FILENAME :: string
  DATABASE_SCRIPTS :: "string list"

section \<open>JavaScript values and objects\<close>

datatype jsval =
    JUndefined
  | JNull
  | JBool bool
  | JNumber int
  | JString string
  | JArray "jsval list"
  | JObject "(string \<times> jsval) list"

fun truthy :: "jsval \<Rightarrow> bool" where
  "truthy JUndefined = False"
| "truthy JNull = False"
| "truthy (JBool b) = b"
| "truthy (JNumber n) = (n \<noteq> 0)"
| "truthy (JString s) = (s \<noteq> [])"
| "truthy (JArray _) = True"
| "truthy (JObject _) = True"

text \<open>\<^verbatim>\<open>a || b\<close> and \<^verbatim>\<open>a && b\<close>.\<close>

definition js_or :: "jsval \<Rightarrow> jsval \<Rightarrow> jsval" where
  "js_or a b = (if truthy a then a else b)"

definition js_and :: "jsval \<Rightarrow> jsval \<Rightarrow> jsval" where
  "js_and a b = (if truthy a then b else a)"

text \<open>Reading a named property of a value that is neither null nor undefined.\<close>

fun get_property :: "jsval \<Rightarrow> string \<Rightarrow> jsval" where
  "get_property (JObject kvs) k = (case map_of kvs k of None \<Rightarrow> JUndefined | Some v \<Rightarrow> v)"
| "get_property _ k = JUndefined"

text \<open>
  The accumulator objects of the scans (\<^verbatim>\<open>rules\<close>, \<^verbatim>\<open>pages\<close>, \<^verbatim>\<open>databases\<close>, ...) are plain
  objects, created as \<^verbatim>\<open>{}\<close>. The model keeps one as an association list in insertion
  order; \<^verbatim>\<open>obj[k] = obj[k] || {}\<close> followed by an assignment to a field is an update that
  keeps the position of an existing key. \<^verbatim>\<open>Object.keys\<close> lists the keys that are array
  indices first, in ascending numeric order, then the others in insertion order.

  A plain object inherits the members of \<^verbatim>\<open>Object.prototype\<close>, and the scans read and write
  their tables with keys taken from file names:

  \<^item> \<^verbatim>\<open>obj['__proto__']\<close> is \<^verbatim>\<open>Object.prototype\<close> itself, and assigning it back changes
    nothing: no key is created, and a field written to what was read is a field added to
    \<^verbatim>\<open>Object.prototype\<close>, which every entry that has no field of this name of its own
    inherits. The association list keeps these fields under the key \<^verbatim>\<open>__proto__\<close>;
    \<open>own_keys\<close> leaves the key out and the lookup of an entry fills the fields it lacks
    from there.

  \<^item> For the name \<open>k\<close> of another member (\<^verbatim>\<open>constructor\<close>, \<^verbatim>\<open>toString\<close>, ...), \<^verbatim>\<open>obj[k]\<close> is
    a built-in function, so \<^verbatim>\<open>obj[k] = obj[k] || {}\<close> stores that function under the key
    and the fields are written to the function. No such function has a field that the
    scans use, so the entry behaves as a new one; but it has no member \<^verbatim>\<open>scripts\<close>, which
    the scan of the database connections expects.

  Every collector is modelled from a state in which nothing was added to the built-in
  objects: the first call in a process, on its own. A key that names a field added to
  \<^verbatim>\<open>Object.prototype\<close> earlier in the same scan is not treated specially.
\<close>

type_synonym 'a js_object = "(string \<times> 'a) list"

definition digit_value :: "char \<Rightarrow> nat" where
  "digit_value ch = length (takeWhile (\<lambda>d. d \<noteq> ch) ''0123456789'')"

definition index_value :: "string \<Rightarrow> nat" where
  "index_value s = foldl (\<lambda>n ch. 10 * n + digit_value ch) 0 s"

definition is_array_index :: "string \<Rightarrow> bool" where
  "is_array_index s =
     (s \<noteq> [] \<and> list_all (\<lambda>ch. ch \<in> set ''0123456789'') s
      \<and> (s = ''0'' \<or> take 1 s \<noteq> ''0'') \<and> index_value s < 4294967295)"

definition object_keys :: "'a js_object \<Rightarrow> string list" where
  "object_keys obj =
     sort_key index_value (filter is_array_index (map fst obj))
     @ filter (\<lambda>k. \<not> is_array_index k) (map fst obj)"

definition field_of :: "'a \<Rightarrow> 'a js_object \<Rightarrow> string \<Rightarrow> 'a" where
  "field_of empty_object obj k = (case map_of obj k of None \<Rightarrow> empty_object | Some v \<Rightarrow> v)"

text \<open>The names of the members of \<^verbatim>\<open>Object.prototype\<close>.\<close>

definition inherited_members :: "string list" where
  "inherited_members =
     [''__proto__'', ''constructor'', ''hasOwnProperty'', ''isPrototypeOf'',
      ''propertyIsEnumerable'', ''toLocaleString'', ''toString'', ''valueOf'',
      ''__defineGetter__'', ''__defineSetter__'', ''__lookupGetter__'', ''__lookupSetter__'']"

text \<open>\<^verbatim>\<open>Object.keys\<close> of a table.\<close>

definition own_keys :: "'a js_object \<Rightarrow> string list" where
  "own_keys obj = filter (\<lambda>k. k \<noteq> ''__proto__'') (object_keys obj)"

text \<open>Reading a field of an entry: its own value, or else the one on \<^verbatim>\<open>Object.prototype\<close>.\<close>

definition inherit :: "'a option \<Rightarrow> 'a option \<Rightarrow> 'a option" where
  "inherit own from_prototype = (case own of None \<Rightarrow> from_prototype | Some v \<Rightarrow> Some v)"

text \<open>
  The \<^verbatim>\<open>TypeError\<close> of reading a member of \<^verbatim>\<open>undefined\<close>, with the message of the V8 engine
  in the versions of Node of the repository's time.
\<close>

definition TypeError_undefined :: "string \<Rightarrow> error" where
  "TypeError_undefined member =
     \<lparr>code = None,
      message = ''Cannot read property '' @ [CHR 0x27] @ member @ [CHR 0x27] @ '' of undefined''\<rparr>"

section \<open>Promises\<close>

text \<open>
  \<^verbatim>\<open>Promise.map(keys, mapper, {concurrency: 2})\<close> resolves to the results in the order of
  \<^verbatim>\<open>keys\<close>, or rejects. When several mappers reject, the model reports the first in the
  order of \<^verbatim>\<open>keys\<close>.
\<close>

fun promise_map :: "('a \<Rightarrow> error + 'b) \<Rightarrow> 'a list \<Rightarrow> error + 'b list" where
  "promise_map mapper [] = Inr []"
| "promise_map mapper (x # xs) =
     (case mapper x of
        Inl e \<Rightarrow> Inl e
      | Inr y \<Rightarrow> (case promise_map mapper xs of Inl e \<Rightarrow> Inl e | Inr ys \<Rightarrow> Inr (y # ys)))"

text \<open>A read that is only issued when its file name was recorded.\<close>

definition read_optional :: "filesystem \<Rightarrow> path option \<Rightarrow> error + string option" where
  "read_optional fs fileName =
     (case fileName of
        None \<Rightarrow> Inr None
      | Some p \<Rightarrow> (case readFile fs p of Inl e \<Rightarrow> Inl e | Inr contents \<Rightarrow> Inr (Some contents)))"

text \<open>
  The \<^verbatim>\<open>.catch\<close> at the end of every collector: \<^verbatim>\<open>ENOENT\<close> resolves with no value
  (\<^verbatim>\<open>undefined\<close>, here \<open>None\<close>), any other error rejects with a new error whose message is
  the collector's prefix followed by the message of the error caught.
\<close>

definition catch_scan :: "string \<Rightarrow> error \<Rightarrow> error + 'a option" where
  "catch_scan prefix e =
     (if code e = Some ''ENOENT'' then Inr None else Inl (new_Error (prefix @ message e)))"

text \<open>
  Operations issued together complete in an order the program does not control. The
  order is a parameter: for the paths of the operations issued, the indices of the
  operations in the order they complete.
\<close>

type_synonym scheduler = "path list \<Rightarrow> nat list"

definition in_completion_order :: "scheduler \<Rightarrow> ('a \<Rightarrow> path) \<Rightarrow> 'a list \<Rightarrow> 'a list" where
  "in_completion_order sch path_of ops =
     map (\<lambda>i. ops ! i) (filter (\<lambda>i. i < length ops) (sch (map path_of ops)))"

definition valid_scheduler :: "scheduler \<Rightarrow> bool" where
  "valid_scheduler sch = (\<forall>ps. mset (sch ps) = mset [0..<length ps])"

definition in_issue_order :: scheduler where
  "in_issue_order ps = [0..<length ps]"

definition in_reverse_order :: scheduler where
  "in_reverse_order ps = rev [0..<length ps]"

section \<open>Rules\<close>

record rule_files =
  scriptFileName :: "path option"
  metadataFileName :: "path option"

record rule =
  rule_script :: bool
  rule_metadata :: bool
  rule_name :: string
  rule_scriptFile :: "string option"
  rule_metadataFile :: "string option"

definition processRule :: "filesystem \<Rightarrow> string \<Rightarrow> rule_files \<Rightarrow> error + rule" where
  "processRule fs ruleName r =
     (case read_optional fs (scriptFileName r) of
        Inl e \<Rightarrow> Inl e
      | Inr s \<Rightarrow>
          (case read_optional fs (metadataFileName r) of
             Inl e \<Rightarrow> Inl e
           | Inr m \<Rightarrow>
               Inr \<lparr>rule_script = (s \<noteq> None), rule_metadata = (m \<noteq> None), rule_name = ruleName,
                    rule_scriptFile = s, rule_metadataFile = m\<rparr>))"

definition no_rule_files :: rule_files where
  "no_rule_files = \<lparr>scriptFileName = None, metadataFileName = None\<rparr>"

definition add_rule_file :: "path \<Rightarrow> rule_files js_object \<Rightarrow> string \<Rightarrow> rule_files js_object" where
  "add_rule_file dirPath rules fileName =
     (let ruleName = parse_name fileName; ext = parse_ext fileName in
      if ext \<noteq> ''.js'' \<and> ext \<noteq> ''.json'' then rules
      else
        let r = field_of no_rule_files rules ruleName in
        if ext = ''.js''
        then AList.update ruleName (r\<lparr>scriptFileName := Some (path_join dirPath fileName)\<rparr>) rules
        else AList.update ruleName (r\<lparr>metadataFileName := Some (path_join dirPath fileName)\<rparr>) rules)"

text \<open>\<^verbatim>\<open>rules[ruleName]\<close> as \<^verbatim>\<open>processRule\<close> reads it.\<close>

definition rule_entry :: "rule_files js_object \<Rightarrow> string \<Rightarrow> rule_files" where
  "rule_entry rules ruleName =
     (let own = field_of no_rule_files rules ruleName;
          prototype = field_of no_rule_files rules ''__proto__''
      in \<lparr>scriptFileName = inherit (scriptFileName own) (scriptFileName prototype),
          metadataFileName = inherit (metadataFileName own) (metadataFileName prototype)\<rparr>)"

definition getRules :: "filesystem \<Rightarrow> path \<Rightarrow> error + rule list option" where
  "getRules fs dirPath =
     (case readdir fs dirPath of
        Inl e \<Rightarrow> catch_scan ''Couldn't process the rules directory because: '' e
      | Inr files \<Rightarrow>
          (let rules = foldl (add_rule_file dirPath) [] files in
           case promise_map (\<lambda>ruleName. processRule fs ruleName (rule_entry rules ruleName))
                  (own_keys rules) of
             Inl e \<Rightarrow> catch_scan ''Couldn't process the rules directory because: '' e
           | Inr result \<Rightarrow> Inr (Some result)))"

section \<open>Clients and resource servers\<close>

record configurable_files =
  configFileName :: "path option"
  cfg_metadataFileName :: "path option"

record configurable =
  configurable_name :: string
  configFile :: "string option"
  metadataFile :: "string option"

definition processConfigurableConfig ::
  "filesystem \<Rightarrow> string \<Rightarrow> configurable_files \<Rightarrow> error + configurable" where
  "processConfigurableConfig fs configurableName configurableFiles =
     (case read_optional fs (configFileName configurableFiles) of
        Inl e \<Rightarrow> Inl e
      | Inr cfg \<Rightarrow>
          (case read_optional fs (cfg_metadataFileName configurableFiles) of
             Inl e \<Rightarrow> Inl e
           | Inr m \<Rightarrow>
               Inr \<lparr>configurable_name = configurableName, configFile = cfg, metadataFile = m\<rparr>))"

definition no_configurable_files :: configurable_files where
  "no_configurable_files = \<lparr>configFileName = None, cfg_metadataFileName = None\<rparr>"

definition add_configurable_file ::
  "path \<Rightarrow> configurable_files js_object \<Rightarrow> string \<Rightarrow> configurable_files js_object" where
  "add_configurable_file dirPath configurables fileName =
     (let fullFileName = path_join dirPath fileName; ext = parse_ext fileName in
      if ext \<noteq> ''.json'' then configurables
      else
        let configurableName = parse_name fileName;
            meta = endsWith configurableName ''.meta'';
            configurableName = (if meta then parse_name configurableName else configurableName);
            f = field_of no_configurable_files configurables configurableName
        in
          if meta
          then AList.update configurableName (f\<lparr>cfg_metadataFileName := Some fullFileName\<rparr>) configurables
          else AList.update configurableName (f\<lparr>configFileName := Some fullFileName\<rparr>) configurables)"

text \<open>
  \<^verbatim>\<open>configurables[configurableName]\<close> as \<^verbatim>\<open>processConfigurableConfig\<close> reads it: the test
  \<^verbatim>\<open>names.name in configurableFiles\<close> finds inherited fields too.
\<close>

definition configurable_entry :: "configurable_files js_object \<Rightarrow> string \<Rightarrow> configurable_files" where
  "configurable_entry configurables configurableName =
     (let own = field_of no_configurable_files configurables configurableName;
          prototype = field_of no_configurable_files configurables ''__proto__''
      in \<lparr>configFileName = inherit (configFileName own) (configFileName prototype),
          cfg_metadataFileName = inherit (cfg_metadataFileName own) (cfg_metadataFileName prototype)\<rparr>)"

definition getConfigurableConfigs ::
  "filesystem \<Rightarrow> path \<Rightarrow> string \<Rightarrow> error + configurable list option" where
  "getConfigurableConfigs fs dirPath type =
     (case readdir fs dirPath of
        Inl e \<Rightarrow> catch_scan (''Couldn't process '' @ type @ '' directory because: '') e
      | Inr files \<Rightarrow>
          (let configurables = foldl (add_configurable_file dirPath) [] files in
           case promise_map
                  (\<lambda>configurableName. processConfigurableConfig fs configurableName
                     (configurable_entry configurables configurableName))
                  (own_keys configurables) of
             Inl e \<Rightarrow> catch_scan (''Couldn't process '' @ type @ '' directory because: '') e
           | Inr result \<Rightarrow> Inr (Some result)))"

section \<open>Database connections\<close>

datatype file_details =
    IsScript (fd_database: string) (fd_name: string)
  | NotScript (fd_database: string)

definition getDatabaseFileDetails :: "constants \<Rightarrow> path \<Rightarrow> file_details option" where
  "getDatabaseFileDetails c filename =
     (let baseFileName = path_basename filename;
          firstDirname = path_dirname filename;
          thisConnectionDir = path_basename firstDirname;
          allConnectionsDir = path_basename (path_dirname firstDirname)
      in
        if allConnectionsDir = DATABASE_CONNECTIONS_DIRECTORY c
           \<and> (test_js baseFileName \<or> test_json baseFileName)
        then
          (let isScript = test_js baseFileName; scriptName = parse_name baseFileName in
           if isScript
           then (if scriptName \<in> set (DATABASE_SCRIPTS c)
                 then Some (IsScript thisConnectionDir (parse_name scriptName))
                 else None)
           else if scriptName = ''configuration'' then Some (NotScript thisConnectionDir)
           else None)
        else None)"

record script_file =
  sf_name :: string
  sf_scriptFileName :: path

record database_files =
  db_scripts :: "script_file list"
  db_configurationFileName :: "path option"

record script =
  script_name :: string
  scriptFile :: string

record database =
  database_name :: string
  scripts :: "script list"
  configurationFile :: "string option"
  configurationFileName :: "path option"

text \<open>
  The promises of \<^verbatim>\<open>readDatabaseFiles\<close>: one read per script, then the read of the
  configuration file. Each completion changes the database object under construction, a
  script read by \<^verbatim>\<open>push\<close>; the first read to fail rejects the whole. The object passed
  for a connection is its entry of the table, or a built-in function (\<open>None\<close>), which has
  no member \<^verbatim>\<open>scripts\<close>: then \<^verbatim>\<open>databaseObject.scripts.forEach\<close> throws.
\<close>

datatype database_read = ReadScript script_file | ReadConfiguration path

fun read_path :: "database_read \<Rightarrow> path" where
  "read_path (ReadScript s) = sf_scriptFileName s"
| "read_path (ReadConfiguration p) = p"

fun completed :: "database_read \<Rightarrow> string \<Rightarrow> database \<Rightarrow> database" where
  "completed (ReadScript s) contents db =
     db\<lparr>scripts := scripts db @ [\<lparr>script_name = sf_name s, scriptFile = contents\<rparr>]\<rparr>"
| "completed (ReadConfiguration p) contents db =
     db\<lparr>configurationFile := Some contents, configurationFileName := Some p\<rparr>"

fun settle_reads :: "filesystem \<Rightarrow> database_read list \<Rightarrow> database \<Rightarrow> error + database" where
  "settle_reads fs [] db = Inr db"
| "settle_reads fs (r # rs) db =
     (case readFile fs (read_path r) of
        Inl e \<Rightarrow> Inl e
      | Inr contents \<Rightarrow> settle_reads fs rs (completed r contents db))"

definition database_reads :: "database_files \<Rightarrow> database_read list" where
  "database_reads databaseObject =
     map ReadScript (db_scripts databaseObject)
     @ (case db_configurationFileName databaseObject of None \<Rightarrow> [] | Some p \<Rightarrow> [ReadConfiguration p])"

definition readDatabaseFiles ::
  "scheduler \<Rightarrow> filesystem \<Rightarrow> string \<Rightarrow> database_files option \<Rightarrow> error + database" where
  "readDatabaseFiles sch fs databaseName databaseObject =
     (case databaseObject of
        None \<Rightarrow> Inl (TypeError_undefined ''forEach'')
      | Some files \<Rightarrow>
          settle_reads fs (in_completion_order sch read_path (database_reads files))
            \<lparr>database_name = databaseName, scripts = [], configurationFile = None,
             configurationFileName = None\<rparr>)"

definition no_database_files :: database_files where
  "no_database_files = \<lparr>db_scripts = [], db_configurationFileName = None\<rparr>"

text \<open>
  A callback of \<^verbatim>\<open>forEach\<close> returns, or throws, which ends the loop; what it changed
  before stays changed.
\<close>

datatype 'a ending = Returned 'a | Threw error 'a

fun forEach :: "('s \<Rightarrow> 'a \<Rightarrow> 's ending) \<Rightarrow> 'a list \<Rightarrow> 's \<Rightarrow> 's ending" where
  "forEach callback [] s = Returned s"
| "forEach callback (x # xs) s =
     (case callback s x of
        Returned s' \<Rightarrow> forEach callback xs s'
      | Threw e s' \<Rightarrow> Threw e s')"

text \<open>
  One file of a connection directory. \<^verbatim>\<open>databases[k] = databases[k] || { scripts: [] }\<close>
  makes a new entry only when \<^verbatim>\<open>databases[k]\<close> is undefined; for the name of a member of
  \<^verbatim>\<open>Object.prototype\<close> it is not, and \<^verbatim>\<open>databases[k].scripts.push\<close> throws, after the
  assignment has made the name a key of the table.
\<close>

definition add_database_file ::
  "constants \<Rightarrow> path \<Rightarrow> database_files js_object \<Rightarrow> string
   \<Rightarrow> database_files js_object ending" where
  "add_database_file c fullDir databases fileName =
     (let fullFileName = path_join fullDir fileName in
      case getDatabaseFileDetails c fullFileName of
        None \<Rightarrow> Returned databases
      | Some details \<Rightarrow>
          (let d = field_of no_database_files databases (fd_database details) in
           case details of
             IsScript _ nm \<Rightarrow>
               if fd_database details \<in> set inherited_members
               then Threw (TypeError_undefined ''push'') (AList.update (fd_database details) d databases)
               else
                 Returned
                   (AList.update (fd_database details)
                      (d\<lparr>db_scripts := db_scripts d @ [\<lparr>sf_name = nm, sf_scriptFileName = fullFileName\<rparr>]\<rparr>)
                      databases)
           | NotScript _ \<Rightarrow>
               Returned
                 (AList.update (fd_database details)
                    (d\<lparr>db_configurationFileName := Some fullFileName\<rparr>) databases)))"

text \<open>
  The listing of one connection directory, when it completes: its files are added to the
  accumulator. A listing that fails, or a callback that throws, is caught by the
  \<^verbatim>\<open>.catch\<close> of this listing, which logs and adds nothing more.
\<close>

definition scan_connection ::
  "constants \<Rightarrow> filesystem \<Rightarrow> database_files js_object \<Rightarrow> path \<Rightarrow> database_files js_object" where
  "scan_connection c fs databases fullDir =
     (case readdir fs fullDir of
        Inl err \<Rightarrow> databases
      | Inr files \<Rightarrow>
          (case forEach (add_database_file c fullDir) files databases of
             Returned databases' \<Rightarrow> databases'
           | Threw err databases' \<Rightarrow> databases'))"

text \<open>
  \<^verbatim>\<open>databases[databaseName]\<close> as \<^verbatim>\<open>readDatabaseFiles\<close> receives it: a built-in function for
  the name of a member of \<^verbatim>\<open>Object.prototype\<close>, and otherwise the entry, whose
  \<^verbatim>\<open>configurationFileName\<close> may be inherited.
\<close>

definition database_entry :: "database_files js_object \<Rightarrow> string \<Rightarrow> database_files option" where
  "database_entry databases databaseName =
     (if databaseName \<in> set inherited_members then None
      else
        (let own = field_of no_database_files databases databaseName;
             prototype = field_of no_database_files databases ''__proto__''
         in Some \<lparr>db_scripts = db_scripts own,
                  db_configurationFileName =
                    inherit (db_configurationFileName own) (db_configurationFileName prototype)\<rparr>))"

definition getDatabases ::
  "constants \<Rightarrow> scheduler \<Rightarrow> filesystem \<Rightarrow> path \<Rightarrow> error + database list option" where
  "getDatabases c sch fs dirPath =
     (case readdir fs dirPath of
        Inl e \<Rightarrow> catch_scan ''Couldn't process database scripts directory because: '' e
      | Inr dirs \<Rightarrow>
          (let databases =
                 foldl (scan_connection c fs) []
                   (in_completion_order sch (\<lambda>fullDir. fullDir) (map (path_join dirPath) dirs))
           in
             case promise_map
                    (\<lambda>databaseName. readDatabaseFiles sch fs databaseName
                       (database_entry databases databaseName))
                    (own_keys databases) of
               Inl e \<Rightarrow> catch_scan ''Couldn't process database scripts directory because: '' e
             | Inr result \<Rightarrow> Inr (Some result)))"

section \<open>Pages, email templates and email providers\<close>

definition isPage :: "constants \<Rightarrow> path \<Rightarrow> bool" where
  "isPage c file =
     (let directory = path_basename (path_dirname file); fileName = path_basename file in
      directory = PAGES_DIRECTORY c \<and> fileName \<in> set (PAGE_NAMES c))"

definition isEmailTemplate :: "constants \<Rightarrow> path \<Rightarrow> bool" where
  "isEmailTemplate c file =
     (let directory = path_basename (path_dirname file); fileName = path_basename file in
      directory = EMAIL_TEMPLATES_DIRECTORY c \<and> fileName \<in> set (EMAIL_TEMPLATE_FILENAMES c))"

definition isEmailProvider :: "constants \<Rightarrow> path \<Rightarrow> bool" where
  "isEmailProvider c file =
     (let directory = path_basename (path_dirname file); fileName = path_basename file in
      directory = EMAIL_PROVIDERS_DIRECTORY c \<and> fileName = EMAIL_PROVIDER_FILENAME c)"

record page_files =
  page_fileName :: "path option"
  metaFileName :: "path option"

record page =
  page_metadata :: bool
  page_name :: string
  htmlFile :: "string option"
  page_metadataFile :: "string option"

definition processPage :: "filesystem \<Rightarrow> string \<Rightarrow> page_files \<Rightarrow> error + page" where
  "processPage fs pageName pg =
     (case read_optional fs (page_fileName pg) of
        Inl e \<Rightarrow> Inl e
      | Inr html \<Rightarrow>
          (case read_optional fs (metaFileName pg) of
             Inl e \<Rightarrow> Inl e
           | Inr m \<Rightarrow>
               Inr \<lparr>page_metadata = (m \<noteq> None), page_name = pageName, htmlFile = html,
                    page_metadataFile = m\<rparr>))"

record provider =
  provider_name :: string
  provider_configFile :: "string option"

definition processEmailProvider :: "filesystem \<Rightarrow> string \<Rightarrow> path option \<Rightarrow> error + provider" where
  "processEmailProvider fs providerName provider_fileName =
     (case read_optional fs provider_fileName of
        Inl e \<Rightarrow> Inl e
      | Inr cfg \<Rightarrow> Inr \<lparr>provider_name = providerName, provider_configFile = cfg\<rparr>)"

definition no_page_files :: page_files where
  "no_page_files = \<lparr>page_fileName = None, metaFileName = None\<rparr>"

definition add_page_file ::
  "(path \<Rightarrow> bool) \<Rightarrow> path \<Rightarrow> page_files js_object \<Rightarrow> string \<Rightarrow> page_files js_object" where
  "add_page_file recognised dirPath pages fileName =
     (let fullFileName = path_join dirPath fileName in
      if recognised fullFileName
      then
        (let pageName = parse_name fileName; ext = parse_ext fileName;
             pg = field_of no_page_files pages pageName
         in
           if ext \<noteq> ''.json''
           then AList.update pageName (pg\<lparr>page_fileName := Some fullFileName\<rparr>) pages
           else AList.update pageName (pg\<lparr>metaFileName := Some fullFileName\<rparr>) pages)
      else pages)"

text \<open>\<^verbatim>\<open>pages[pageName]\<close> as \<^verbatim>\<open>processPage\<close> reads it.\<close>

definition page_entry :: "page_files js_object \<Rightarrow> string \<Rightarrow> page_files" where
  "page_entry table pageName =
     (let own = field_of no_page_files table pageName;
          prototype = field_of no_page_files table ''__proto__''
      in \<lparr>page_fileName = inherit (page_fileName own) (page_fileName prototype),
          metaFileName = inherit (metaFileName own) (metaFileName prototype)\<rparr>)"

definition getPages :: "constants \<Rightarrow> filesystem \<Rightarrow> path \<Rightarrow> error + page list option" where
  "getPages c fs dirPath =
     (case readdir fs dirPath of
        Inl e \<Rightarrow> catch_scan ''Couldn't process pages directory because: '' e
      | Inr files \<Rightarrow>
          (let pages = foldl (add_page_file (isPage c) dirPath) [] files in
           case promise_map (\<lambda>pageName. processPage fs pageName (page_entry pages pageName))
                  (own_keys pages) of
             Inl e \<Rightarrow> catch_scan ''Couldn't process pages directory because: '' e
           | Inr result \<Rightarrow> Inr (Some result)))"

definition getEmailTemplates :: "constants \<Rightarrow> filesystem \<Rightarrow> path \<Rightarrow> error + page list option" where
  "getEmailTemplates c fs dirPath =
     (case readdir fs dirPath of
        Inl e \<Rightarrow> catch_scan ''Couldn't process the email templates directory because: '' e
      | Inr files \<Rightarrow>
          (let templates = foldl (add_page_file (isEmailTemplate c) dirPath) [] files in
           case promise_map
                  (\<lambda>templateName. processPage fs templateName (page_entry templates templateName))
                  (own_keys templates) of
             Inl e \<Rightarrow> catch_scan ''Couldn't process the email templates directory because: '' e
           | Inr result \<Rightarrow> Inr (Some result)))"

definition add_provider_file ::
  "constants \<Rightarrow> path \<Rightarrow> (path option) js_object \<Rightarrow> string \<Rightarrow> (path option) js_object" where
  "add_provider_file c dirPath providers fileName =
     (let fullFileName = path_join dirPath fileName in
      if isEmailProvider c fullFileName
      then AList.update (parse_name fileName) (Some fullFileName) providers
      else providers)"

text \<open>\<^verbatim>\<open>providers[providerName].fileName\<close> as \<^verbatim>\<open>processEmailProvider\<close> reads it.\<close>

definition provider_entry :: "(path option) js_object \<Rightarrow> string \<Rightarrow> path option" where
  "provider_entry providers providerName =
     inherit (field_of None providers providerName) (field_of None providers ''__proto__'')"

definition getEmailProviders :: "constants \<Rightarrow> filesystem \<Rightarrow> path \<Rightarrow> error + provider list option" where
  "getEmailProviders c fs dirPath =
     (case readdir fs dirPath of
        Inl e \<Rightarrow> catch_scan ''Couldn't process the email providers directory because: '' e
      | Inr files \<Rightarrow>
          (let providers = foldl (add_provider_file c dirPath) [] files in
           case promise_map
                  (\<lambda>providerName. processEmailProvider fs providerName (provider_entry providers providerName))
                  (own_keys providers) of
             Inl e \<Rightarrow> catch_scan ''Couldn't process the email providers directory because: '' e
           | Inr result \<Rightarrow> Inr (Some result)))"

section \<open>The aggregation\<close>

text \<open>
  What a collector resolves to: its list of entities, or no value (\<^verbatim>\<open>undefined\<close>) when the
  directory does not exist.
\<close>

datatype collection =
    NoValue
  | Rules "rule list"
  | Pages "page list"
  | Databases "database list"
  | Configurables "configurable list"
  | Providers "provider list"

definition resolved :: "('a list \<Rightarrow> collection) \<Rightarrow> error + 'a list option \<Rightarrow> error + collection" where
  "resolved wrap r =
     (case r of
        Inl e \<Rightarrow> Inl e
      | Inr None \<Rightarrow> Inr NoValue
      | Inr (Some xs) \<Rightarrow> Inr (wrap xs))"

text \<open>
  The functions \<^verbatim>\<open>unifyScripts\<close> and \<^verbatim>\<open>unifyDatabases\<close> of the extension tools library
  apply the mappings to a raw collection. The library is not part of the repository: both
  are parameters.
\<close>

record tools =
  unifyScripts :: "collection \<Rightarrow> jsval \<Rightarrow> jsval"
  unifyDatabases :: "collection \<Rightarrow> jsval \<Rightarrow> jsval"

text \<open>
  The rest of the run time: \<^verbatim>\<open>path.resolve\<close> (which depends on the working directory),
  \<^verbatim>\<open>JSON.parse\<close> and the order in which operations issued together complete.
\<close>

record runtime =
  path_resolve :: "string \<Rightarrow> path"
  JSON_parse :: "string \<Rightarrow> error + jsval"
  completion :: scheduler

text \<open>
  \<^verbatim>\<open>Promise.props\<close>: the object of the resolved values, or a rejection. When several
  collectors reject, the model reports the first in the order of the properties.
\<close>

fun promise_props :: "(string \<times> (error + 'a)) list \<Rightarrow> error + (string \<times> 'a) list" where
  "promise_props [] = Inr []"
| "promise_props ((k, r) # rest) =
     (case r of
        Inl e \<Rightarrow> Inl e
      | Inr v \<Rightarrow> (case promise_props rest of Inl e \<Rightarrow> Inl e | Inr vs \<Rightarrow> Inr ((k, v) # vs)))"

definition collectors ::
  "constants \<Rightarrow> runtime \<Rightarrow> filesystem \<Rightarrow> path \<Rightarrow> (string \<times> (error + collection)) list" where
  "collectors c rt fs fullPath =
     [(''rules'', resolved Rules (getRules fs (path_join fullPath (RULES_DIRECTORY c)))),
      (''pages'', resolved Pages (getPages c fs (path_join fullPath (PAGES_DIRECTORY c)))),
      (''databases'',
         resolved Databases
           (getDatabases c (completion rt) fs (path_join fullPath (DATABASE_CONNECTIONS_DIRECTORY c)))),
      (''clients'',
         resolved Configurables
           (getConfigurableConfigs fs (path_join fullPath (CLIENTS_DIRECTORY c)) ''client'')),
      (''resourceServers'',
         resolved Configurables
           (getConfigurableConfigs fs (path_join fullPath (RESOURCE_SERVERS_DIRECTORY c))
              ''resource server'')),
      (''emailTemplates'',
         resolved Pages (getEmailTemplates c fs (path_join fullPath (EMAIL_TEMPLATES_DIRECTORY c)))),
      (''emailProviders'',
         resolved Providers (getEmailProviders c fs (path_join fullPath (EMAIL_PROVIDERS_DIRECTORY c))))]"

definition getChanges ::
  "constants \<Rightarrow> tools \<Rightarrow> runtime \<Rightarrow> filesystem \<Rightarrow> string \<Rightarrow> jsval \<Rightarrow> error + jsval" where
  "getChanges c lib rt fs filePath mappings =
     (let fullPath = path_resolve rt filePath in
      case lstat fs fullPath of
        Inl e \<Rightarrow>
          Inl (new_Error (''Can't process '' @ path_string fullPath @ '' because: '' @ message e))
      | Inr st \<Rightarrow>
          if isDirectory st then
            (case promise_props (collectors c rt fs fullPath) of
               Inl e \<Rightarrow> Inl e
             | Inr result \<Rightarrow>
                 Inr (JObject
                   [(''rules'', unifyScripts lib (field_of NoValue result ''rules'') mappings),
                    (''databases'', unifyDatabases lib (field_of NoValue result ''databases'') mappings),
                    (''pages'', unifyScripts lib (field_of NoValue result ''pages'') mappings),
                    (''clients'', unifyScripts lib (field_of NoValue result ''clients'') mappings),
                    (''resourceServers'',
                       unifyScripts lib (field_of NoValue result ''resourceServers'') mappings),
                    (''emailTemplates'',
                       unifyScripts lib (field_of NoValue result ''emailTemplates'') mappings),
                    (''emailProviders'',
                       unifyScripts lib (field_of NoValue result ''emailProviders'') mappings)]))
          else if isFile st then
            (case readFile fs fullPath of
               Inl e \<Rightarrow> Inl e
             | Inr contents \<Rightarrow> JSON_parse rt contents)
          else
            Inl (new_Error (''Not sure what to do with, '' @ path_string fullPath
                            @ '', it is not a file or directory...'')))"

section \<open>The context\<close>

record Context =
  fileName :: string
  mappings :: jsval
  pages :: jsval
  rules :: jsval
  databases :: jsval
  clients :: jsval
  resourceServers :: jsval
  emailTemplates :: jsval
  emailProviders :: jsval

text \<open>The constructor sets the file name and the mappings; the collections are not set yet.\<close>

definition new_Context :: "string \<Rightarrow> jsval \<Rightarrow> Context" where
  "new_Context file_name m =
     \<lparr>fileName = file_name, mappings = m, pages = JUndefined, rules = JUndefined,
      databases = JUndefined, clients = JUndefined, resourceServers = JUndefined,
      emailTemplates = JUndefined, emailProviders = JUndefined\<rparr>"

text \<open>
  \<^verbatim>\<open>init(progress)\<close>: the context after the promise resolved, or the error. Reading a
  property of \<^verbatim>\<open>null\<close> in the handler throws a \<^verbatim>\<open>TypeError\<close>, which rejects the promise.
\<close>

definition init ::
  "constants \<Rightarrow> tools \<Rightarrow> runtime \<Rightarrow> filesystem \<Rightarrow> Context \<Rightarrow> jsval \<Rightarrow> error + Context" where
  "init c lib rt fs ctx progress =
     (let me = ctx\<lparr>mappings := js_or (mappings ctx) (js_and progress (get_property progress ''mappings''))\<rparr>
      in
        case getChanges c lib rt fs (fileName me) (mappings me) of
          Inl e \<Rightarrow> Inl e
        | Inr data \<Rightarrow>
            if data = JNull \<or> data = JUndefined
            then Inl (new_Error ''Cannot read property 'pages' of null'')
            else
              Inr (me\<lparr>pages := js_or (get_property data ''pages'') (JObject []),
                      rules := js_or (get_property data ''rules'') (JObject []),
                      databases := js_or (get_property data ''databases'') (JArray []),
                      clients := js_or (get_property data ''clients'') (JObject []),
                      resourceServers := js_or (get_property data ''resourceServers'') (JObject []),
                      emailTemplates := js_or (get_property data ''emailTemplates'') (JObject []),
                      emailProviders := js_or (get_property data ''emailProviders'') (JObject [])\<rparr>))"

section \<open>A concrete platform for examples\<close>

text \<open>
  A file tree and the file system it presents, with Node's error codes and messages; the
  constants as the tests of the repository use them; stand-ins for the library functions.
\<close>

datatype node = File string | Dir "(string \<times> node) list" | DanglingLink

fun walk :: "node \<Rightarrow> path \<Rightarrow> string + node" where
  "walk n [] = Inr n"
| "walk n (x # xs) =
     (case n of
        Dir entries \<Rightarrow> (case map_of entries x of None \<Rightarrow> Inl ''ENOENT'' | Some n' \<Rightarrow> walk n' xs)
      | File _ \<Rightarrow> Inl ''ENOTDIR''
      | DanglingLink \<Rightarrow> Inl ''ENOENT'')"

definition fs_error :: "string \<Rightarrow> string \<Rightarrow> path \<Rightarrow> error" where
  "fs_error errno syscall p =
     \<lparr>code = Some errno,
      message = errno
        @ (if errno = ''ENOENT'' then '': no such file or directory, ''
           else if errno = ''ENOTDIR'' then '': not a directory, ''
           else '': illegal operation on a directory, '')
        @ syscall
        @ (if errno = ''EISDIR'' then [] else '' '' @ [CHR 0x27] @ path_string p @ [CHR 0x27])\<rparr>"

definition tree_fs :: "node \<Rightarrow> filesystem" where
  "tree_fs root =
     \<lparr>lstat = (\<lambda>p. case walk root p of
                  Inl errno \<Rightarrow> Inl (fs_error errno ''lstat'' p)
                | Inr (File _) \<Rightarrow> Inr RegularFile
                | Inr (Dir _) \<Rightarrow> Inr Directory
                | Inr DanglingLink \<Rightarrow> Inr SymbolicLink),
      readdir = (\<lambda>p. case walk root p of
                  Inl errno \<Rightarrow> Inl (fs_error errno ''scandir'' p)
                | Inr (File _) \<Rightarrow> Inl (fs_error ''ENOTDIR'' ''scandir'' p)
                | Inr (Dir entries) \<Rightarrow> Inr (map fst entries)
                | Inr DanglingLink \<Rightarrow> Inl (fs_error ''ENOENT'' ''scandir'' p)),
      readFile = (\<lambda>p. case walk root p of
                  Inl errno \<Rightarrow> Inl (fs_error errno ''open'' p)
                | Inr (File contents) \<Rightarrow> Inr contents
                | Inr (Dir _) \<Rightarrow> Inl (fs_error ''EISDIR'' ''read'' p)
                | Inr DanglingLink \<Rightarrow> Inl (fs_error ''ENOENT'' ''open'' p))\<rparr>"

definition split_path :: "string \<Rightarrow> path" where
  "split_path s =
     filter (\<lambda>x. x \<noteq> [])
       (foldr (\<lambda>ch acc. if ch = CHR ''/'' then [] # acc
                         else (case acc of [] \<Rightarrow> [[ch]] | x # xs \<Rightarrow> (ch # x) # xs)) s [])"

definition example_constants :: constants where
  "example_constants =
     \<lparr>RULES_DIRECTORY = ''rules'',
      PAGES_DIRECTORY = ''pages'',
      DATABASE_CONNECTIONS_DIRECTORY = ''database-connections'',
      CLIENTS_DIRECTORY = ''clients'',
      RESOURCE_SERVERS_DIRECTORY = ''resource-servers'',
      EMAIL_TEMPLATES_DIRECTORY = ''emails'',
      EMAIL_PROVIDERS_DIRECTORY = ''email-providers'',
      PAGE_NAMES = [''login.html'', ''login.json'', ''password_reset.html'', ''password_reset.json'',
                    ''guardian_multifactor.html'', ''guardian_multifactor.json'',
                    ''error_page.html'', ''error_page.json''],
      EMAIL_TEMPLATE_FILENAMES = [''verify_email.html'', ''verify_email.json'',
                                  ''reset_email.html'', ''reset_email.json''],
      EMAIL_PROVIDER_FILENAME = ''default.json'',
      DATABASE_SCRIPTS = [''login'', ''create'', ''delete'', ''change_email'', ''get_user'']\<rparr>"

fun entity_names :: "collection \<Rightarrow> string list" where
  "entity_names NoValue = []"
| "entity_names (Rules xs) = map rule_name xs"
| "entity_names (Pages xs) = map page_name xs"
| "entity_names (Databases xs) = map database_name xs"
| "entity_names (Configurables xs) = map configurable_name xs"
| "entity_names (Providers xs) = map provider_name xs"

text \<open>The stand-ins key every entity by its name and record the mappings they were given.\<close>

definition example_tools :: tools where
  "example_tools =
     \<lparr>unifyScripts = (\<lambda>coll m. JObject (map (\<lambda>n. (n, m)) (entity_names coll))),
      unifyDatabases = (\<lambda>coll m. JArray (map (\<lambda>n. JObject [(''name'', JString n), (''mappings'', m)])
                                          (entity_names coll)))\<rparr>"

definition example_document_text :: string where
  "example_document_text = ''{'' @ [CHR 0x22] @ ''databases'' @ [CHR 0x22] @ '':[]}''"

definition example_runtime :: runtime where
  "example_runtime =
     \<lparr>path_resolve = split_path,
      JSON_parse = (\<lambda>s. if s = example_document_text then Inr (JObject [(''databases'', JArray [])])
                        else Inl (new_Error ''Unexpected token'')),
      completion = in_issue_order\<rparr>"

definition link_tree :: node where
  "link_tree = Dir [(''repo'', Dir [(''link'', DanglingLink)])]"

section \<open>Notions used to state the properties\<close>

text \<open>Every promise of the list other than the one named \<open>k\<close> resolves.\<close>

definition others_resolve :: "string \<Rightarrow> (string \<times> (error + 'a)) list \<Rightarrow> bool" where
  "others_resolve k ps =
     list_all (\<lambda>(k', r). k' = k \<or> (case r of Inl _ \<Rightarrow> False | Inr _ \<Rightarrow> True)) ps"


text \<open>Two versions of the library functions that agree on the mappings \<open>m\<close>.\<close>

definition agree_at :: "tools \<Rightarrow> tools \<Rightarrow> jsval \<Rightarrow> bool" where
  "agree_at lib lib' m =
     (\<forall>coll. unifyScripts lib coll m = unifyScripts lib' coll m
            \<and> unifyDatabases lib coll m = unifyDatabases lib' coll m)"

definition pages_file_tree :: node where
  "pages_file_tree = Dir [(''repo'', Dir [(''pages'', File ''junk'')])]"

definition empty_repo_tree :: node where
  "empty_repo_tree = Dir [(''repo'', Dir [])]"

text \<open>
  A descriptor file: a document with a collection that holds an entity, one collection
  that is \<^verbatim>\<open>null\<close>, one that is the number 0 and four that are absent; and a version of
  \<^verbatim>\<open>JSON.parse\<close> that knows this text.
\<close>

definition quoted :: "string \<Rightarrow> string" where
  "quoted s = [CHR 0x22] @ s @ [CHR 0x22]"

definition descriptor_text :: string where
  "descriptor_text =
     ''{'' @ quoted ''rules'' @ '':{'' @ quoted ''welcome'' @ '':{}},''
       @ quoted ''databases'' @ '':null,'' @ quoted ''pages'' @ '':0}''"

definition descriptor_document :: "(string \<times> jsval) list" where
  "descriptor_document =
     [(''rules'', JObject [(''welcome'', JObject [])]), (''databases'', JNull), (''pages'', JNumber 0)]"

definition descriptor_runtime :: runtime where
  "descriptor_runtime =
     example_runtime\<lparr>JSON_parse :=
       (\<lambda>s. if s = descriptor_text then Inr (JObject descriptor_document)
            else JSON_parse example_runtime s)\<rparr>"

definition descriptor_tree :: node where
  "descriptor_tree = Dir [(''repo'', Dir [(''tenant.json'', File descriptor_text)])]"

text \<open>A library that behaves as the stand-in on the mappings \<open>m0\<close> and returns null elsewhere.\<close>

definition example_tools_at :: "jsval \<Rightarrow> tools" where
  "example_tools_at m0 =
     \<lparr>unifyScripts = (\<lambda>coll m. if m = m0 then unifyScripts example_tools coll m else JNull),
      unifyDatabases = (\<lambda>coll m. if m = m0 then unifyDatabases example_tools coll m else JNull)\<rparr>"

definition rules_tree :: node where
  "rules_tree =
     Dir [(''repo'', Dir [(''rules'', Dir [(''welcome.js'', File ''function welcome() { }'')])])]"

text \<open>
  The entry a file of a clients or resource servers directory contributes to, and whether
  it is the entry's metadata: what \<^verbatim>\<open>getConfigurableConfigs\<close> computes for each file name
  before it updates the accumulator.
\<close>

definition configurable_role :: "string \<Rightarrow> (string \<times> bool) option" where
  "configurable_role entry =
     (if parse_ext entry \<noteq> ''.json'' then None
      else if endsWith (parse_name entry) ''.meta''
           then Some (parse_name (parse_name entry), True)
           else Some (parse_name entry, False))"

text \<open>
  A name that is not the name of a member of \<^verbatim>\<open>Object.prototype\<close>, and a listing of a
  clients or resource servers directory in which every entry that a file contributes to
  has such a name.
\<close>

definition ordinary :: "string \<Rightarrow> bool" where
  "ordinary k = (k \<notin> set inherited_members)"

definition ordinary_configurables :: "string list \<Rightarrow> bool" where
  "ordinary_configurables files =
     list_all (\<lambda>f. case configurable_role f of None \<Rightarrow> True | Some (k, meta) \<Rightarrow> ordinary k) files"

text \<open>
  Three directories of configurables: one that holds only a sidecar with an empty name,
  one with the sidecar of an entry and the sidecar of the entry named after that sidecar,
  and one with a sidecar named after \<^verbatim>\<open>__proto__\<close>.
\<close>

definition sidecars_tree :: node where
  "sidecars_tree =
     Dir [(''repo'', Dir
       [(''clients'', Dir [(''.meta.json'', File ''{ nameless }'')]),
        (''resource-servers'', Dir [(''api.meta.json'', File ''{ meta of api }''),
                                    (''api.meta.meta.json'', File ''{ meta of api.meta }'')]),
        (''other-clients'', Dir [(''__proto__.meta.json'', File ''{ inherited }''),
                                 (''app.json'', File ''{ app }'')])])]"

definition configurables_tree :: node where
  "configurables_tree =
     Dir [(''repo'', Dir [(''clients'',
       Dir [(''README.md'', File ''something''),
            (''someClient2.meta.json'', File ''{ someMetaKey: someMetaVal }''),
            (''someClient.json'', File ''{ someKey: someVal }''),
            (''someClient2.json'', File ''{ someKey: @@somekey@@ }'')])])]"

text \<open>
  The files of a connection directory that \<^verbatim>\<open>getDatabaseFileDetails\<close> recognises: a script
  has the extension \<^verbatim>\<open>.js\<close> in any case and a base name of the whitelist, the configuration
  is named \<^verbatim>\<open>configuration\<close> with the extension \<^verbatim>\<open>.json\<close> in any case. The names of the
  scripts of a listing, in the order of the listing, are \<open>recognised_scripts\<close>.
\<close>

definition is_script :: "constants \<Rightarrow> string \<Rightarrow> bool" where
  "is_script c entry = (test_js entry \<and> parse_name entry \<in> set (DATABASE_SCRIPTS c))"

definition is_configuration :: "string \<Rightarrow> bool" where
  "is_configuration entry =
     (\<not> test_js entry \<and> test_json entry \<and> parse_name entry = ''configuration'')"

definition recognised_scripts :: "constants \<Rightarrow> string list \<Rightarrow> string list" where
  "recognised_scripts c files = map (\<lambda>f. parse_name (parse_name f)) (filter (is_script c) files)"

definition script_files_of :: "constants \<Rightarrow> path \<Rightarrow> string list \<Rightarrow> script_file list" where
  "script_files_of c fullDir files =
     map (\<lambda>f. \<lparr>sf_name = parse_name (parse_name f), sf_scriptFileName = path_join fullDir f\<rparr>)
       (filter (is_script c) files)"

text \<open>The entries a connection directory lists; none when its listing fails.\<close>

definition listed :: "filesystem \<Rightarrow> path \<Rightarrow> string list" where
  "listed fs fullDir = (case readdir fs fullDir of Inl _ \<Rightarrow> [] | Inr files \<Rightarrow> files)"

fun script_reads :: "database_read list \<Rightarrow> script_file list" where
  "script_reads [] = []"
| "script_reads (ReadScript s # rs) = s # script_reads rs"
| "script_reads (ReadConfiguration p # rs) = script_reads rs"

text \<open>The table that a callback leaves, whether it returned or threw.\<close>

definition after :: "'s ending \<Rightarrow> 's" where
  "after r = (case r of Returned s \<Rightarrow> s | Threw e s \<Rightarrow> s)"

definition connections_tree :: node where
  "connections_tree =
     Dir [(''repo'', Dir [(''database-connections'',
       Dir [(''.DSStore'', File ''junk''),
            (''db1'', Dir [(''create.js'', File ''function create() { }''),
                           (''delete.js'', File ''function delete() { }''),
                           (''junk.json'', File ''junk''),
                           (''login.JS'', File ''function login2() { }''),
                           (''login.js'', File ''function login() { }'')]),
            (''db2'', Dir [(''configuration.json'', File ''{ }''),
                           (''login.js'', File ''function login() { }'')])])])]"

text \<open>
  No connection directory of the listing \<open>dirs\<close> has the name of a member of
  \<^verbatim>\<open>Object.prototype\<close>; and every file that \<^verbatim>\<open>getDatabaseFileDetails\<close> recognises in the
  connection directories \<open>dirs\<close> of \<open>dirPath\<close> can be read.
\<close>

definition ordinary_connections :: "string list \<Rightarrow> bool" where
  "ordinary_connections dirs = list_all ordinary dirs"

definition recognised_readable :: "constants \<Rightarrow> filesystem \<Rightarrow> path \<Rightarrow> string list \<Rightarrow> bool" where
  "recognised_readable c fs dirPath dirs =
     list_all (\<lambda>d. list_all (\<lambda>f. (is_script c f \<or> is_configuration f) \<longrightarrow>
                                  (case readFile fs (path_join (path_join dirPath d) f) of
                                     Inl _ \<Rightarrow> False | Inr _ \<Rightarrow> True))
                      (listed fs (path_join dirPath d))) dirs"

text \<open>
  A connections directory with an entry that is a file, a connection named
  \<^verbatim>\<open>constructor\<close> and a connection \<^verbatim>\<open>db2\<close>; and the same directory without the connection
  named \<^verbatim>\<open>constructor\<close>.
\<close>

definition constructor_tree :: node where
  "constructor_tree =
     Dir [(''repo'', Dir [(''database-connections'',
       Dir [(''.DSStore'', File ''junk''),
            (''constructor'', Dir [(''login.js'', File ''function login() { }'')]),
            (''db2'', Dir [(''configuration.json'', File ''{ }''),
                           (''login.js'', File ''function login() { }'')])])])]"

definition skipped_tree :: node where
  "skipped_tree =
     Dir [(''repo'', Dir [(''database-connections'',
       Dir [(''.DSStore'', File ''junk''),
            (''db2'', Dir [(''configuration.json'', File ''{ }''),
                           (''login.js'', File ''function login() { }'')])])])]"

text \<open>
  What a scan of the database connections holds when the order of the connections and the
  order of the scripts of each connection are set aside.
\<close>

definition database_content :: "database \<Rightarrow> string \<times> script multiset \<times> string option \<times> path option" where
  "database_content db =
     (database_name db, mset (scripts db), configurationFile db, configurationFileName db)"

definition file_contents :: "filesystem \<Rightarrow> path \<Rightarrow> string" where
  "file_contents fs p = (case readFile fs p of Inl _ \<Rightarrow> [] | Inr s \<Rightarrow> s)"

fun configuration_reads :: "database_read list \<Rightarrow> path list" where
  "configuration_reads [] = []"
| "configuration_reads (ReadScript s # rs) = configuration_reads rs"
| "configuration_reads (ReadConfiguration p # rs) = p # configuration_reads rs"

section \<open>Concurrent reads\<close>

text \<open>
  Every collector hands the keys of its table to \<^verbatim>\<open>Promise.map\<close> with the option
  \<^verbatim>\<open>{concurrency: 2}\<close>. What a mapper does when it is called is the program's: it makes the
  object of its entity, issues the read of every file of the entity, one call to
  \<^verbatim>\<open>fs.readFileAsync\<close> after the other without waiting, gives each read a callback that
  stores the contents in the object, and returns the \<^verbatim>\<open>Promise.all\<close> of these reads,
  followed by the object.

  The reads of a rule, a configurable, a page or an email provider are of the entity's
  first file (script, configuration, page) and of its second (metadata); those of a
  database connection are \<open>database_reads\<close>, with the callback \<open>completed\<close>.
\<close>

datatype file_read = Primary path | Sidecar path

fun file_read_path :: "file_read \<Rightarrow> path" where
  "file_read_path (Primary p) = p"
| "file_read_path (Sidecar p) = p"

definition issued :: "(path \<Rightarrow> file_read) \<Rightarrow> path option \<Rightarrow> file_read list" where
  "issued kind recorded = (case recorded of None \<Rightarrow> [] | Some p \<Rightarrow> [kind p])"

definition processRule_reads :: "rule_files \<Rightarrow> file_read list" where
  "processRule_reads r = issued Primary (scriptFileName r) @ issued Sidecar (metadataFileName r)"

definition currentRule :: "string \<Rightarrow> rule" where
  "currentRule ruleName =
     \<lparr>rule_script = False, rule_metadata = False, rule_name = ruleName, rule_scriptFile = None,
      rule_metadataFile = None\<rparr>"

fun rule_completed :: "file_read \<Rightarrow> string \<Rightarrow> rule \<Rightarrow> rule" where
  "rule_completed (Primary p) contents cur = cur\<lparr>rule_script := True, rule_scriptFile := Some contents\<rparr>"
| "rule_completed (Sidecar p) contents cur =
     cur\<lparr>rule_metadata := True, rule_metadataFile := Some contents\<rparr>"

definition processConfigurableConfig_reads :: "configurable_files \<Rightarrow> file_read list" where
  "processConfigurableConfig_reads configurableFiles =
     issued Primary (configFileName configurableFiles)
     @ issued Sidecar (cfg_metadataFileName configurableFiles)"

definition new_configurable :: "string \<Rightarrow> configurable" where
  "new_configurable configurableName =
     \<lparr>configurable_name = configurableName, configFile = None, metadataFile = None\<rparr>"

fun configurable_completed :: "file_read \<Rightarrow> string \<Rightarrow> configurable \<Rightarrow> configurable" where
  "configurable_completed (Primary p) contents cur = cur\<lparr>configFile := Some contents\<rparr>"
| "configurable_completed (Sidecar p) contents cur = cur\<lparr>metadataFile := Some contents\<rparr>"

definition processPage_reads :: "page_files \<Rightarrow> file_read list" where
  "processPage_reads pg = issued Primary (page_fileName pg) @ issued Sidecar (metaFileName pg)"

definition currentPage :: "string \<Rightarrow> page" where
  "currentPage pageName =
     \<lparr>page_metadata = False, page_name = pageName, htmlFile = None, page_metadataFile = None\<rparr>"

fun page_completed :: "file_read \<Rightarrow> string \<Rightarrow> page \<Rightarrow> page" where
  "page_completed (Primary p) contents cur = cur\<lparr>htmlFile := Some contents\<rparr>"
| "page_completed (Sidecar p) contents cur =
     cur\<lparr>page_metadata := True, page_metadataFile := Some contents\<rparr>"

definition processEmailProvider_reads :: "path option \<Rightarrow> file_read list" where
  "processEmailProvider_reads provider_fileName = issued Primary provider_fileName"

definition currentProvider :: "string \<Rightarrow> provider" where
  "currentProvider providerName = \<lparr>provider_name = providerName, provider_configFile = None\<rparr>"

fun provider_completed :: "file_read \<Rightarrow> string \<Rightarrow> provider \<Rightarrow> provider" where
  "provider_completed r contents cur = cur\<lparr>provider_configFile := Some contents\<rparr>"

text \<open>
  A mapper, as \<^verbatim>\<open>Promise.map\<close> sees it: called on a key it throws, or issues reads and has
  the object of the entity; \<open>target\<close> is the file of a read and \<open>handler\<close> the callback of
  a read that succeeded.
\<close>

record ('r, 'e) mapping =
  called :: "string \<Rightarrow> error + 'r list \<times> 'e"
  target :: "'r \<Rightarrow> path"
  handler :: "'r \<Rightarrow> string \<Rightarrow> 'e \<Rightarrow> 'e"

definition rules_mapping :: "rule_files js_object \<Rightarrow> (file_read, rule) mapping" where
  "rules_mapping table =
     \<lparr>called = (\<lambda>ruleName. Inr (processRule_reads (rule_entry table ruleName), currentRule ruleName)),
      target = file_read_path, handler = rule_completed\<rparr>"

definition configurables_mapping ::
  "configurable_files js_object \<Rightarrow> (file_read, configurable) mapping" where
  "configurables_mapping table =
     \<lparr>called = (\<lambda>configurableName.
         Inr (processConfigurableConfig_reads (configurable_entry table configurableName),
              new_configurable configurableName)),
      target = file_read_path, handler = configurable_completed\<rparr>"

definition pages_mapping :: "page_files js_object \<Rightarrow> (file_read, page) mapping" where
  "pages_mapping table =
     \<lparr>called = (\<lambda>pageName. Inr (processPage_reads (page_entry table pageName), currentPage pageName)),
      target = file_read_path, handler = page_completed\<rparr>"

definition providers_mapping :: "(path option) js_object \<Rightarrow> (file_read, provider) mapping" where
  "providers_mapping table =
     \<lparr>called = (\<lambda>providerName.
         Inr (processEmailProvider_reads (provider_entry table providerName),
              currentProvider providerName)),
      target = file_read_path, handler = provider_completed\<rparr>"

definition databases_mapping :: "database_files js_object \<Rightarrow> (database_read, database) mapping" where
  "databases_mapping table =
     \<lparr>called = (\<lambda>databaseName.
         case database_entry table databaseName of
           None \<Rightarrow> Inl (TypeError_undefined ''forEach'')
         | Some files \<Rightarrow>
             Inr (database_reads files,
                  \<lparr>database_name = databaseName, scripts = [], configurationFile = None,
                   configurationFileName = None\<rparr>)),
      target = read_path, handler = completed\<rparr>"

text \<open>
  The state of one \<^verbatim>\<open>Promise.map\<close>: the keys the mapper was not yet called on, with their
  positions; for every call of the mapper whose reads have not all completed, the reads
  outstanding, the object of the entity and whether one of its reads failed; the results
  so far, by position; and the rejection, once a read has failed or a call has thrown.
  An event calls the mapper on a waiting key, completes a read (with the contents, which
  the callback stores, or with an error, which rejects the \<^verbatim>\<open>Promise.all\<close> of the call and
  with it the whole), or settles a call that has no read left. Which event comes next is
  not the program's choice, so a run is given by its list of events; an event that cannot
  happen in a state ends the run with \<open>None\<close>.

  The library is not part of the repository. The model takes from its contract that the
  mapper is called on a waiting key only while fewer than \<^verbatim>\<open>concurrency\<close> calls are pending
  (the first parameter of \<open>step\<close>), and nothing about which waiting key comes next. The
  library calls no mapper once the whole has rejected; the model does not use this, so the
  runs of the program are among the model's.
\<close>

datatype event = Invoke nat | Complete nat nat | Settle nat

record ('r, 'e) call =
  call_index :: nat
  outstanding :: "'r list"
  entity :: 'e
  failed :: bool

record ('r, 'e) map_state =
  waiting :: "(nat \<times> string) list"
  pending :: "('r, 'e) call list"
  results :: "'e option list"
  rejection :: "error option"

definition drop_nth :: "nat \<Rightarrow> 'b list \<Rightarrow> 'b list" where
  "drop_nth i xs = take i xs @ drop (Suc i) xs"

text \<open>A promise settles once: a later rejection changes nothing.\<close>

definition reject :: "error \<Rightarrow> ('r, 'e) map_state \<Rightarrow> ('r, 'e) map_state" where
  "reject e s = (case rejection s of None \<Rightarrow> s\<lparr>rejection := Some e\<rparr> | Some first \<Rightarrow> s)"

definition step ::
  "nat \<Rightarrow> ('r, 'e) mapping \<Rightarrow> filesystem \<Rightarrow> event \<Rightarrow> ('r, 'e) map_state
   \<Rightarrow> ('r, 'e) map_state option" where
  "step concurrency m fs ev s =
     (case ev of
        Invoke i \<Rightarrow>
          if i < length (waiting s) \<and> length (pending s) < concurrency
          then
            (let s' = s\<lparr>waiting := drop_nth i (waiting s)\<rparr> in
             case called m (snd (waiting s ! i)) of
               Inl e \<Rightarrow> Some (reject e s')
             | Inr (reads, object) \<Rightarrow>
                 Some (s'\<lparr>pending := pending s
                            @ [\<lparr>call_index = fst (waiting s ! i), outstanding = reads,
                                entity = object, failed = False\<rparr>]\<rparr>))
          else None
      | Complete j k \<Rightarrow>
          if j < length (pending s) \<and> k < length (outstanding (pending s ! j))
          then
            (let this = pending s ! j;
                 r = outstanding this ! k;
                 rest = drop_nth k (outstanding this)
             in
               case readFile fs (target m r) of
                 Inl e \<Rightarrow>
                   Some (reject e
                     (s\<lparr>pending := (pending s)[j := this\<lparr>outstanding := rest, failed := True\<rparr>]\<rparr>))
               | Inr contents \<Rightarrow>
                   Some (s\<lparr>pending := (pending s)
                             [j := this\<lparr>outstanding := rest,
                                        entity := handler m r contents (entity this)\<rparr>]\<rparr>))
          else None
      | Settle j \<Rightarrow>
          if j < length (pending s) \<and> outstanding (pending s ! j) = []
          then
            (let this = pending s ! j; s' = s\<lparr>pending := drop_nth j (pending s)\<rparr> in
             Some (if failed this then s'
                   else s'\<lparr>results := (results s)[call_index this := Some (entity this)]\<rparr>))
          else None)"

fun run ::
  "nat \<Rightarrow> ('r, 'e) mapping \<Rightarrow> filesystem \<Rightarrow> event list \<Rightarrow> ('r, 'e) map_state
   \<Rightarrow> ('r, 'e) map_state option" where
  "run concurrency m fs [] s = Some s"
| "run concurrency m fs (ev # evs) s =
     (case step concurrency m fs ev s of
        None \<Rightarrow> None
      | Some s' \<Rightarrow> run concurrency m fs evs s')"

definition start :: "string list \<Rightarrow> ('r, 'e) map_state" where
  "start ks =
     \<lparr>waiting = enumerate 0 ks, pending = [], results = replicate (length ks) None,
      rejection = None\<rparr>"

text \<open>The reads in flight in a state.\<close>

definition in_flight :: "('r, 'e) map_state \<Rightarrow> nat" where
  "in_flight s = sum_list (map (\<lambda>this. length (outstanding this)) (pending s))"

text \<open>
  The promise of \<^verbatim>\<open>Promise.map\<close> in a state: rejected with the first rejection, resolved
  with the results in the order of the keys once every call has given its result, and
  pending (\<open>None\<close>) otherwise. And the promise of a collector, after its \<^verbatim>\<open>.catch\<close>.
\<close>

definition promised :: "('r, 'e) map_state \<Rightarrow> (error + 'e list) option" where
  "promised s =
     (case rejection s of
        Some e \<Rightarrow> Some (Inl e)
      | None \<Rightarrow>
          if list_all (\<lambda>result. result \<noteq> None) (results s)
          then Some (Inr (map the (results s)))
          else None)"

definition scanned :: "string \<Rightarrow> (error + 'e list) option \<Rightarrow> (error + 'e list option) option" where
  "scanned prefix p =
     (case p of
        None \<Rightarrow> None
      | Some (Inl e) \<Rightarrow> Some (catch_scan prefix e)
      | Some (Inr entities) \<Rightarrow> Some (Inr (Some entities)))"

text \<open>
  The \<^verbatim>\<open>Promise.map\<close> of each collector after the events \<open>evs\<close>: the table is built from the
  listing as in the collector, the keys are \<^verbatim>\<open>Object.keys\<close> of the table and the mapper is
  called with the table's entry. There is no state when the listing fails.
\<close>

definition getRules_map ::
  "filesystem \<Rightarrow> path \<Rightarrow> event list \<Rightarrow> (file_read, rule) map_state option" where
  "getRules_map fs dirPath evs =
     (case readdir fs dirPath of
        Inl e \<Rightarrow> None
      | Inr files \<Rightarrow>
          (let rules = foldl (add_rule_file dirPath) [] files in
           run 2 (rules_mapping rules) fs evs (start (own_keys rules))))"

definition getConfigurableConfigs_map ::
  "filesystem \<Rightarrow> path \<Rightarrow> event list \<Rightarrow> (file_read, configurable) map_state option" where
  "getConfigurableConfigs_map fs dirPath evs =
     (case readdir fs dirPath of
        Inl e \<Rightarrow> None
      | Inr files \<Rightarrow>
          (let configurables = foldl (add_configurable_file dirPath) [] files in
           run 2 (configurables_mapping configurables) fs evs (start (own_keys configurables))))"

definition getPages_map ::
  "constants \<Rightarrow> filesystem \<Rightarrow> path \<Rightarrow> event list \<Rightarrow> (file_read, page) map_state option" where
  "getPages_map c fs dirPath evs =
     (case readdir fs dirPath of
        Inl e \<Rightarrow> None
      | Inr files \<Rightarrow>
          (let pages = foldl (add_page_file (isPage c) dirPath) [] files in
           run 2 (pages_mapping pages) fs evs (start (own_keys pages))))"

definition getEmailTemplates_map ::
  "constants \<Rightarrow> filesystem \<Rightarrow> path \<Rightarrow> event list \<Rightarrow> (file_read, page) map_state option" where
  "getEmailTemplates_map c fs dirPath evs =
     (case readdir fs dirPath of
        Inl e \<Rightarrow> None
      | Inr files \<Rightarrow>
          (let templates = foldl (add_page_file (isEmailTemplate c) dirPath) [] files in
           run 2 (pages_mapping templates) fs evs (start (own_keys templates))))"

definition getEmailProviders_map ::
  "constants \<Rightarrow> filesystem \<Rightarrow> path \<Rightarrow> event list \<Rightarrow> (file_read, provider) map_state option" where
  "getEmailProviders_map c fs dirPath evs =
     (case readdir fs dirPath of
        Inl e \<Rightarrow> None
      | Inr files \<Rightarrow>
          (let providers = foldl (add_provider_file c dirPath) [] files in
           run 2 (providers_mapping providers) fs evs (start (own_keys providers))))"

text \<open>
  For the database connections, the table depends on the order in which the listings of
  the connection directories complete, as in \<open>getDatabases\<close>.
\<close>

definition connections_table ::
  "constants \<Rightarrow> scheduler \<Rightarrow> filesystem \<Rightarrow> path \<Rightarrow> string list \<Rightarrow> database_files js_object" where
  "connections_table c sch fs dirPath dirs =
     foldl (scan_connection c fs) []
       (in_completion_order sch (\<lambda>fullDir. fullDir) (map (path_join dirPath) dirs))"

definition getDatabases_map ::
  "constants \<Rightarrow> scheduler \<Rightarrow> filesystem \<Rightarrow> path \<Rightarrow> event list
   \<Rightarrow> (database_read, database) map_state option" where
  "getDatabases_map c sch fs dirPath evs =
     (case readdir fs dirPath of
        Inl e \<Rightarrow> None
      | Inr dirs \<Rightarrow>
          (let databases = connections_table c sch fs dirPath dirs in
           run 2 (databases_mapping databases) fs evs (start (own_keys databases))))"

text \<open>The largest number of files that one connection of the table has to read.\<close>

definition largest_connection :: "database_files js_object \<Rightarrow> nat" where
  "largest_connection table =
     foldr (\<lambda>databaseName.
              max (case database_entry table databaseName of
                     None \<Rightarrow> 0 | Some files \<Rightarrow> length (database_reads files)))
       (own_keys table) 0"

text \<open>
  Tables without a key that is the name of a member of \<^verbatim>\<open>Object.prototype\<close>, for the
  collectors of one directory.
\<close>

definition ordinary_table :: "'a js_object \<Rightarrow> bool" where
  "ordinary_table table = list_all (\<lambda>entry. ordinary (fst entry)) table"

text \<open>
  A tree with entities for every collector; and a rules directory in which no script can
  be read: \<^verbatim>\<open>gone.js\<close> is a link to a file that does not exist and \<^verbatim>\<open>folder.js\<close> is a
  directory.
\<close>

definition populated_tree :: node where
  "populated_tree =
     Dir [(''repo'', Dir
       [(''rules'', Dir [(''first.js'', File ''function first() { }''),
                         (''first.json'', File ''{ }''),
                         (''second.js'', File ''function second() { }''),
                         (''second.json'', File ''{ }'')]),
        (''pages'', Dir [(''login.html'', File ''<html/>''),
                         (''login.json'', File ''{ }''),
                         (''error_page.html'', File ''<html/>'')]),
        (''database-connections'',
           Dir [(''db1'', Dir [(''login.js'', File ''function login() { }''),
                               (''create.js'', File ''function create() { }''),
                               (''configuration.json'', File ''{ }'')])]),
        (''clients'', Dir [(''app.json'', File ''{ }''),
                           (''app.meta.json'', File ''{ }'')]),
        (''emails'', Dir [(''verify_email.html'', File ''<html/>''),
                          (''verify_email.json'', File ''{ }'')]),
        (''email-providers'', Dir [(''default.json'', File ''{ }'')])])]"

definition unreadable_tree :: node where
  "unreadable_tree =
     Dir [(''repo'', Dir [(''rules'', Dir [(''gone.js'', DanglingLink), (''folder.js'', Dir [])])])]"

text \<open>
  A tree in which a directory of connections has the name \<^verbatim>\<open>__proto__\<close>: its configuration
  file is recorded on \<^verbatim>\<open>Object.prototype\<close>, so that every connection has it.
\<close>

definition inherited_configuration_tree :: node where
  "inherited_configuration_tree =
     Dir [(''repo'', Dir [(''database-connections'',
       Dir [(''__proto__'', Dir [(''configuration.json'', File ''{ }'')]),
            (''db1'', Dir [(''login.js'', File ''function login() { }'')]),
            (''db2'', Dir [(''login.js'', File ''function login() { }'')])])])]"

section \<open>Notions used to reason about the runs\<close>

text \<open>
  The object of an entity after the callbacks of the reads \<open>done\<close>, in this order; a file
  that can be read; and what holds in every state of a run of \<^verbatim>\<open>Promise.map\<close> over the keys
  \<open>ks\<close>: the positions are those of the keys, every pending call belongs to a key and,
  unless a read of it failed, holds the object after the callbacks of the reads that
  completed, which make up the reads that were issued together with those outstanding;
  every result is the object after the callbacks of all the reads of its key; and a
  rejection is what a call threw or the error of a read that was issued.
\<close>

definition feeds :: "('r, 'e) mapping \<Rightarrow> filesystem \<Rightarrow> 'e \<Rightarrow> 'r list \<Rightarrow> 'e" where
  "feeds m fs object done =
     foldl (\<lambda>cur r. handler m r (file_contents fs (target m r)) cur) object done"

definition readable :: "filesystem \<Rightarrow> path \<Rightarrow> bool" where
  "readable fs p = (case readFile fs p of Inl _ \<Rightarrow> False | Inr _ \<Rightarrow> True)"

definition consistent ::
  "('r, 'e) mapping \<Rightarrow> filesystem \<Rightarrow> string list \<Rightarrow> ('r, 'e) map_state \<Rightarrow> bool" where
  "consistent m fs ks s \<longleftrightarrow>
     length (results s) = length ks
     \<and> (\<forall>w\<in>set (waiting s). fst w < length ks \<and> snd w = ks ! fst w)
     \<and> (\<forall>this\<in>set (pending s).
           call_index this < length ks
           \<and> (\<exists>reads object.
                 called m (ks ! call_index this) = Inr (reads, object)
                 \<and> set (outstanding this) \<subseteq> set reads
                 \<and> (\<not> failed this \<longrightarrow>
                      (\<exists>done. mset done + mset (outstanding this) = mset reads
                          \<and> (\<forall>r\<in>set done. readable fs (target m r))
                          \<and> entity this = feeds m fs object done))))
     \<and> (\<forall>n<length ks. \<forall>e. results s ! n = Some e \<longrightarrow>
           (\<exists>reads object done.
               called m (ks ! n) = Inr (reads, object)
               \<and> mset done = mset reads
               \<and> (\<forall>r\<in>set done. readable fs (target m r))
               \<and> e = feeds m fs object done))
     \<and> (\<forall>e. rejection s = Some e \<longrightarrow>
           (\<exists>k\<in>set ks.
               called m k = Inl e
               \<or> (\<exists>reads object r. called m k = Inr (reads, object) \<and> r \<in> set reads
                      \<and> readFile fs (target m r) = Inl e)))"

text \<open>
  The promise of a \<^verbatim>\<open>Promise.map\<close> after the events of a run; \<open>None\<close> when the events are not a
  run or when the promise is still pending.
\<close>

definition outcome :: "('r, 'e) map_state option \<Rightarrow> (error + 'e list) option" where
  "outcome after_events = (case after_events of None \<Rightarrow> None | Some s \<Rightarrow> promised s)"

text \<open>
  The names of the entities of a tree are ordinary: no key of a table of the seven scans
  is the name of a member of \<^verbatim>\<open>Object.prototype\<close>.
\<close>

definition ordinary_names :: "constants \<Rightarrow> filesystem \<Rightarrow> path \<Rightarrow> bool" where
  "ordinary_names c fs root =
     (ordinary_table
        (foldl (add_rule_file (path_join root (RULES_DIRECTORY c))) []
           (listed fs (path_join root (RULES_DIRECTORY c))))
      \<and> ordinary_table
          (foldl (add_page_file (isPage c) (path_join root (PAGES_DIRECTORY c))) []
             (listed fs (path_join root (PAGES_DIRECTORY c))))
      \<and> list_all ordinary (listed fs (path_join root (DATABASE_CONNECTIONS_DIRECTORY c)))
      \<and> ordinary_table
          (foldl (add_configurable_file (path_join root (CLIENTS_DIRECTORY c))) []
             (listed fs (path_join root (CLIENTS_DIRECTORY c))))
      \<and> ordinary_table
          (foldl (add_configurable_file (path_join root (RESOURCE_SERVERS_DIRECTORY c))) []
             (listed fs (path_join root (RESOURCE_SERVERS_DIRECTORY c))))
      \<and> ordinary_table
          (foldl (add_page_file (isEmailTemplate c) (path_join root (EMAIL_TEMPLATES_DIRECTORY c))) []
             (listed fs (path_join root (EMAIL_TEMPLATES_DIRECTORY c))))
      \<and> ordinary_table
          (foldl (add_provider_file c (path_join root (EMAIL_PROVIDERS_DIRECTORY c))) []
             (listed fs (path_join root (EMAIL_PROVIDERS_DIRECTORY c)))))"

section \<open>The aggregation: rejections and results\<close>

lemma promise_props_only_rejection:
  "map_of ps k = Some (Inl e) \<Longrightarrow> others_resolve k ps \<Longrightarrow> promise_props ps = Inl e"
proof (induction ps)
  case Nil
  then show ?case by simp
next
  case (Cons p ps)
  obtain k' r where p: "p = (k', r)" by (cases p)
  show ?case
  proof (cases "k' = k")
    case True
    with Cons.prems p show ?thesis by simp
  next
    case False
    with Cons.prems p obtain v where r: "r = Inr v"
      by (cases r) (auto simp: others_resolve_def)
    from Cons.prems p False have "map_of ps k = Some (Inl e)" "others_resolve k ps"
      by (auto simp: others_resolve_def)
    then have "promise_props ps = Inl e" by (rule Cons.IH)
    with p r show ?thesis by simp
  qed
qed


lemma getChanges_rejects:
  assumes "lstat fs (path_resolve rt filePath) = Inr Directory"
    and "map_of (collectors c rt fs (path_resolve rt filePath)) k = Some (Inl e)"
    and "others_resolve k (collectors c rt fs (path_resolve rt filePath))"
  shows "getChanges c lib rt fs filePath m = Inl e"
  using assms(1) promise_props_only_rejection [OF assms(2,3)]
  by (simp add: getChanges_def Let_def isDirectory_def)

lemma init_rejects:
  assumes "lstat fs (path_resolve rt (fileName ctx)) = Inr Directory"
    and "map_of (collectors c rt fs (path_resolve rt (fileName ctx))) k = Some (Inl e)"
    and "others_resolve k (collectors c rt fs (path_resolve rt (fileName ctx)))"
  shows "init c lib rt fs ctx progress = Inl e"
  using getChanges_rejects [OF assms] by (simp add: init_def Let_def)


lemma catch_scan_other:
  "code e \<noteq> Some ''ENOENT'' \<Longrightarrow> catch_scan prefix e = Inl (new_Error (prefix @ message e))"
  by (simp add: catch_scan_def)




lemma collectors_rules:
  "map_of (collectors c rt fs root) ''rules''
   = Some (resolved Rules (getRules fs (path_join root (RULES_DIRECTORY c))))"
  by (simp add: collectors_def)

lemma collectors_pages:
  "map_of (collectors c rt fs root) ''pages''
   = Some (resolved Pages (getPages c fs (path_join root (PAGES_DIRECTORY c))))"
  by (simp add: collectors_def)

lemma collectors_databases:
  "map_of (collectors c rt fs root) ''databases''
   = Some (resolved Databases
       (getDatabases c (completion rt) fs (path_join root (DATABASE_CONNECTIONS_DIRECTORY c))))"
  by (simp add: collectors_def)

lemma collectors_clients:
  "map_of (collectors c rt fs root) ''clients''
   = Some (resolved Configurables
       (getConfigurableConfigs fs (path_join root (CLIENTS_DIRECTORY c)) ''client''))"
  by (simp add: collectors_def)

lemma collectors_resourceServers:
  "map_of (collectors c rt fs root) ''resourceServers''
   = Some (resolved Configurables
       (getConfigurableConfigs fs (path_join root (RESOURCE_SERVERS_DIRECTORY c)) ''resource server''))"
  by (simp add: collectors_def)

lemma collectors_emailTemplates:
  "map_of (collectors c rt fs root) ''emailTemplates''
   = Some (resolved Pages (getEmailTemplates c fs (path_join root (EMAIL_TEMPLATES_DIRECTORY c))))"
  by (simp add: collectors_def)

lemma collectors_emailProviders:
  "map_of (collectors c rt fs root) ''emailProviders''
   = Some (resolved Providers (getEmailProviders c fs (path_join root (EMAIL_PROVIDERS_DIRECTORY c))))"
  by (simp add: collectors_def)

lemma getRules_listing_fails:
  "readdir fs d = Inl e \<Longrightarrow>
   getRules fs d = catch_scan ''Couldn't process the rules directory because: '' e"
  by (simp add: getRules_def)

lemma getPages_listing_fails:
  "readdir fs d = Inl e \<Longrightarrow>
   getPages c fs d = catch_scan ''Couldn't process pages directory because: '' e"
  by (simp add: getPages_def)

lemma getDatabases_listing_fails:
  "readdir fs d = Inl e \<Longrightarrow>
   getDatabases c sch fs d = catch_scan ''Couldn't process database scripts directory because: '' e"
  by (simp add: getDatabases_def)

lemma getConfigurableConfigs_listing_fails:
  "readdir fs d = Inl e \<Longrightarrow>
   getConfigurableConfigs fs d type
   = catch_scan (''Couldn't process '' @ type @ '' directory because: '') e"
  by (simp add: getConfigurableConfigs_def)

lemma getEmailTemplates_listing_fails:
  "readdir fs d = Inl e \<Longrightarrow>
   getEmailTemplates c fs d = catch_scan ''Couldn't process the email templates directory because: '' e"
  by (simp add: getEmailTemplates_def)

lemma getEmailProviders_listing_fails:
  "readdir fs d = Inl e \<Longrightarrow>
   getEmailProviders c fs d = catch_scan ''Couldn't process the email providers directory because: '' e"
  by (simp add: getEmailProviders_def)


section \<open>File names\<close>

lemma parse_split:
  assumes "parse_ext f \<noteq> []"
  shows "f = parse_name f @ parse_ext f"
proof -
  let ?P = "\<lambda>ch. ch \<noteq> CHR ''.''"
  from assms obtain x front where d: "dropWhile ?P (rev f) = x # front"
    by (cases "dropWhile ?P (rev f)") (auto simp: parse_ext_def)
  from d have "x = hd (dropWhile ?P (rev f))" by simp
  moreover from d have "dropWhile ?P (rev f) \<noteq> []" by simp
  ultimately have x: "x = CHR ''.''" using hd_dropWhile [of ?P "rev f"] by auto
  from assms d have nf: "front \<noteq> []" "f \<noteq> ''..''" by (auto simp: parse_ext_def split: if_splits)
  have "rev f = takeWhile ?P (rev f) @ dropWhile ?P (rev f)" by simp
  with d x have "rev f = takeWhile ?P (rev f) @ CHR ''.'' # front" by simp
  then have "rev (rev f) = rev (takeWhile ?P (rev f) @ CHR ''.'' # front)" by (rule arg_cong)
  then have "f = rev front @ CHR ''.'' # rev (takeWhile ?P (rev f))" by simp
  moreover from d nf have "parse_name f = rev front" by (simp add: parse_name_def)
  moreover from d nf have "parse_ext f = CHR ''.'' # rev (takeWhile ?P (rev f))"
    by (simp add: parse_ext_def)
  ultimately show ?thesis by simp
qed

lemma parse_append_ext:
  assumes "n \<noteq> []" and "CHR ''.'' \<notin> set x" and "x \<noteq> []"
  shows "parse_name (n @ CHR ''.'' # x) = n" and "parse_ext (n @ CHR ''.'' # x) = CHR ''.'' # x"
proof -
  let ?P = "\<lambda>ch. ch \<noteq> CHR ''.''"
  have r: "rev (n @ CHR ''.'' # x) = rev x @ CHR ''.'' # rev n" by simp
  from assms(2) have d: "dropWhile ?P (rev x @ CHR ''.'' # rev n) = CHR ''.'' # rev n"
    by (auto simp: dropWhile_append3)
  from assms(2) have t: "takeWhile ?P (rev x @ CHR ''.'' # rev n) = rev x"
    by (auto simp: takeWhile_tail)
  from assms(1) have ne: "n @ CHR ''.'' # x \<noteq> ''..''"
    using assms(2,3) by (cases n) (auto simp: append_eq_Cons_conv Cons_eq_append_conv)
  show "parse_name (n @ CHR ''.'' # x) = n"
    using assms(1) ne unfolding parse_name_def r d by simp
  show "parse_ext (n @ CHR ''.'' # x) = CHR ''.'' # x"
    using assms(1) ne unfolding parse_ext_def r d t by simp
qed

lemma endsWith_iff: "endsWith s suffix \<longleftrightarrow> (\<exists>k. s = k @ suffix)"
proof
  assume "endsWith s suffix"
  then have "take (length (rev suffix)) (rev s) = rev suffix" by (simp add: endsWith_def)
  then have "rev s = rev suffix @ drop (length (rev suffix)) (rev s)"
    by (metis append_take_drop_id)
  then have "rev (rev s) = rev (rev suffix @ drop (length (rev suffix)) (rev s))"
    by (rule arg_cong)
  then have "s = rev (drop (length (rev suffix)) (rev s)) @ suffix" by simp
  then show "\<exists>k. s = k @ suffix" ..
next
  assume "\<exists>k. s = k @ suffix"
  then show "endsWith s suffix" by (auto simp: endsWith_def)
qed

lemma parse_name_meta: "parse_name (k @ ''.meta'') = (if k = [] then ''.meta'' else k)"
proof (cases "k = []")
  case True
  then show ?thesis by (simp add: parse_name_def)
next
  case False
  then show ?thesis using parse_append_ext(1) [of k "''meta''"] by simp
qed

lemma configurable_role_meta:
  "configurable_role f = Some (k, True) \<longleftrightarrow>
     (k \<noteq> [] \<and> f = k @ ''.meta.json'') \<or> (k = ''.meta'' \<and> f = ''.meta.json'')"
proof
  assume a: "configurable_role f = Some (k, True)"
  then have ext: "parse_ext f = ''.json''" and m: "endsWith (parse_name f) ''.meta''"
    and k: "k = parse_name (parse_name f)"
    by (auto simp: configurable_role_def split: if_splits)
  from ext have f: "f = parse_name f @ ''.json''" using parse_split [of f] by simp
  from m obtain j where j: "parse_name f = j @ ''.meta''" by (auto simp: endsWith_iff)
  with k have kj: "k = (if j = [] then ''.meta'' else j)" by (simp add: parse_name_meta)
  from f j have "f = j @ ''.meta.json''" by simp
  with kj show "(k \<noteq> [] \<and> f = k @ ''.meta.json'') \<or> (k = ''.meta'' \<and> f = ''.meta.json'')"
    by (cases "j = []") auto
next
  assume "(k \<noteq> [] \<and> f = k @ ''.meta.json'') \<or> (k = ''.meta'' \<and> f = ''.meta.json'')"
  then show "configurable_role f = Some (k, True)"
  proof
    assume a: "k \<noteq> [] \<and> f = k @ ''.meta.json''"
    then have f: "f = (k @ ''.meta'') @ CHR ''.'' # ''json''" by simp
    have "parse_name f = k @ ''.meta''" "parse_ext f = ''.json''"
      unfolding f by (rule parse_append_ext; simp)+
    with a show ?thesis by (simp add: configurable_role_def endsWith_iff parse_name_meta)
  next
    assume a: "k = ''.meta'' \<and> f = ''.meta.json''"
    then have f: "f = ''.meta'' @ CHR ''.'' # ''json''" by simp
    have "parse_name f = ''.meta''" "parse_ext f = ''.json''"
      unfolding f by (rule parse_append_ext; simp)+
    with a show ?thesis using parse_name_meta [of "[]"]
      by (simp add: configurable_role_def endsWith_def)
  qed
qed

lemma configurable_role_config:
  "configurable_role f = Some (k, False) \<longleftrightarrow>
     k \<noteq> [] \<and> f = k @ ''.json'' \<and> \<not> endsWith k ''.meta''"
proof
  assume a: "configurable_role f = Some (k, False)"
  then have ext: "parse_ext f = ''.json''" and m: "\<not> endsWith (parse_name f) ''.meta''"
    and k: "k = parse_name f"
    by (auto simp: configurable_role_def split: if_splits)
  from ext have f: "f = parse_name f @ ''.json''" using parse_split [of f] by simp
  have "k \<noteq> []"
  proof
    assume "k = []"
    with f k have "f = ''.json''" by simp
    then have "parse_ext f = []" by (simp add: parse_ext_def)
    with ext show False by simp
  qed
  with f k m show "k \<noteq> [] \<and> f = k @ ''.json'' \<and> \<not> endsWith k ''.meta''" by simp
next
  assume a: "k \<noteq> [] \<and> f = k @ ''.json'' \<and> \<not> endsWith k ''.meta''"
  then have f: "f = k @ CHR ''.'' # ''json''" by simp
  from a have "parse_name f = k" "parse_ext f = ''.json''"
    unfolding f by (simp_all add: parse_append_ext)
  with a show "configurable_role f = Some (k, False)" by (simp add: configurable_role_def)
qed

section \<open>Accumulator objects and mapped promises\<close>

lemma field_of_update:
  "field_of d (AList.update k v obj) k' = (if k' = k then v else field_of d obj k')"
  by (simp add: field_of_def update_conv')

lemma keys_update: "fst ` set (AList.update k v obj) = insert k (fst ` set obj)"
  by (simp add: dom_update)

lemma set_object_keys: "set (object_keys obj) = fst ` set obj"
  by (auto simp: object_keys_def)

lemma field_of_absent: "k \<notin> fst ` set obj \<Longrightarrow> field_of d obj k = d"
proof -
  assume "k \<notin> fst ` set obj"
  then have "map_of obj k = None" by (simp add: map_of_eq_None_iff)
  then show ?thesis by (simp add: field_of_def)
qed

lemma inherit_nothing: "inherit x None = x"
  by (simp add: inherit_def split: option.splits)

lemma own_keys_plain: "''__proto__'' \<notin> fst ` set obj \<Longrightarrow> own_keys obj = object_keys obj"
proof -
  assume "''__proto__'' \<notin> fst ` set obj"
  then have "''__proto__'' \<notin> set (object_keys obj)"
    by (simp only: set_object_keys not_False_eq_True)
  then have "\<forall>k\<in>set (object_keys obj). k \<noteq> ''__proto__''"
    by blast
  then show ?thesis by (simp add: own_keys_def filter_id_conv)
qed

lemma set_own_keys: "set (own_keys obj) = fst ` set obj - {''__proto__''}"
  by (auto simp: own_keys_def set_object_keys)

lemma promise_map_resolved:
  "promise_map mapper xs = Inr ys \<Longrightarrow> list_all2 (\<lambda>x y. mapper x = Inr y) xs ys"
proof (induction xs arbitrary: ys)
  case Nil
  then show ?case by simp
next
  case (Cons x xs)
  then show ?case by (auto split: sum.splits)
qed

lemma promise_map_each:
  assumes "promise_map mapper xs = Inr ys" and "x \<in> set xs"
  shows "\<exists>y\<in>set ys. mapper x = Inr y"
proof -
  from assms(1) have a: "list_all2 (\<lambda>x y. mapper x = Inr y) xs ys"
    by (rule promise_map_resolved)
  from assms(2) obtain i where "i < length xs" "xs ! i = x" by (auto simp: in_set_conv_nth)
  with a have "mapper x = Inr (ys ! i)" "i < length ys"
    by (auto simp: list_all2_conv_all_nth)
  then show ?thesis by auto
qed

lemma promise_map_from:
  assumes "promise_map mapper xs = Inr ys" and "y \<in> set ys"
  shows "\<exists>x\<in>set xs. mapper x = Inr y"
proof -
  from assms(1) have a: "list_all2 (\<lambda>x y. mapper x = Inr y) xs ys"
    by (rule promise_map_resolved)
  from assms(2) obtain i where "i < length ys" "ys ! i = y" by (auto simp: in_set_conv_nth)
  with a have "mapper (xs ! i) = Inr y" "i < length xs"
    by (auto simp: list_all2_conv_all_nth)
  then show ?thesis by auto
qed

section \<open>The scan of a clients or resource servers directory\<close>

lemma add_configurable_file_role:
  "add_configurable_file dirPath acc f =
     (case configurable_role f of
        None \<Rightarrow> acc
      | Some (k, meta) \<Rightarrow>
          AList.update k
            (if meta
             then (field_of no_configurable_files acc k)\<lparr>cfg_metadataFileName := Some (path_join dirPath f)\<rparr>
             else (field_of no_configurable_files acc k)\<lparr>configFileName := Some (path_join dirPath f)\<rparr>)
            acc)"
  by (simp add: add_configurable_file_def configurable_role_def Let_def)

lemma configurables_keys:
  "fst ` set (foldl (add_configurable_file dirPath) acc files)
   = fst ` set acc \<union> {k. \<exists>f\<in>set files. \<exists>b. configurable_role f = Some (k, b)}"
proof (induction files arbitrary: acc)
  case Nil
  then show ?case by simp
next
  case (Cons f files)
  show ?case
  proof (cases "configurable_role f")
    case None
    then have "add_configurable_file dirPath acc f = acc"
      using add_configurable_file_role [of dirPath acc f] by simp
    with None show ?thesis by (simp add: Cons.IH)
  next
    case (Some r)
    obtain k b where r: "r = (k, b)" by (cases r)
    with Some obtain v where "add_configurable_file dirPath acc f = AList.update k v acc"
      using add_configurable_file_role [of dirPath acc f] by simp
    with Some r show ?thesis
      by (auto simp: Cons.IH keys_update)
  qed
qed

lemma configurables_metadata:
  "cfg_metadataFileName
     (field_of no_configurable_files (foldl (add_configurable_file dirPath) acc files) k)
   = (case List.find (\<lambda>f. configurable_role f = Some (k, True)) (rev files) of
        None \<Rightarrow> cfg_metadataFileName (field_of no_configurable_files acc k)
      | Some f \<Rightarrow> Some (path_join dirPath f))"
proof (induction files rule: rev_induct)
  case Nil
  then show ?case by simp
next
  case (snoc f files)
  show ?case
  proof (cases "configurable_role f")
    case None
    then have "add_configurable_file dirPath (foldl (add_configurable_file dirPath) acc files) f
               = foldl (add_configurable_file dirPath) acc files"
      using add_configurable_file_role [of dirPath _ f] by simp
    with None show ?thesis by (simp add: snoc.IH)
  next
    case (Some r)
    obtain k' b where r: "r = (k', b)" by (cases r)
    show ?thesis
    proof (cases "k' = k")
      case True
      with Some r show ?thesis
        using add_configurable_file_role [of dirPath "foldl (add_configurable_file dirPath) acc files" f]
        by (cases b) (simp_all add: snoc.IH field_of_update)
    next
      case False
      with Some r show ?thesis
        using add_configurable_file_role [of dirPath "foldl (add_configurable_file dirPath) acc files" f]
        by (simp add: snoc.IH field_of_update)
    qed
  qed
qed

lemma configurables_config:
  "configFileName
     (field_of no_configurable_files (foldl (add_configurable_file dirPath) acc files) k)
   = (case List.find (\<lambda>f. configurable_role f = Some (k, False)) (rev files) of
        None \<Rightarrow> configFileName (field_of no_configurable_files acc k)
      | Some f \<Rightarrow> Some (path_join dirPath f))"
proof (induction files rule: rev_induct)
  case Nil
  then show ?case by simp
next
  case (snoc f files)
  show ?case
  proof (cases "configurable_role f")
    case None
    then have "add_configurable_file dirPath (foldl (add_configurable_file dirPath) acc files) f
               = foldl (add_configurable_file dirPath) acc files"
      using add_configurable_file_role [of dirPath _ f] by simp
    with None show ?thesis by (simp add: snoc.IH)
  next
    case (Some r)
    obtain k' b where r: "r = (k', b)" by (cases r)
    show ?thesis
    proof (cases "k' = k")
      case True
      with Some r show ?thesis
        using add_configurable_file_role [of dirPath "foldl (add_configurable_file dirPath) acc files" f]
        by (cases b) (simp_all add: snoc.IH field_of_update)
    next
      case False
      with Some r show ?thesis
        using add_configurable_file_role [of dirPath "foldl (add_configurable_file dirPath) acc files" f]
        by (simp add: snoc.IH field_of_update)
    qed
  qed
qed

lemma find_unique:
  assumes "x \<in> set xs" and "P x" and "\<And>y. y \<in> set xs \<Longrightarrow> P y \<Longrightarrow> y = x"
  shows "List.find P xs = Some x"
proof (cases "List.find P xs")
  case None
  with assms(1,2) show ?thesis by (auto simp: find_None_iff)
next
  case (Some y)
  then have "P y" "y \<in> set xs" by (auto simp: find_Some_iff)
  with assms(3) Some show ?thesis by auto
qed

lemma processConfigurableConfig_resolved:
  assumes "processConfigurableConfig fs n files = Inr entry"
  shows "configurable_name entry = n"
    and "cfg_metadataFileName files = Some p \<Longrightarrow>
         \<exists>s. readFile fs p = Inr s \<and> metadataFile entry = Some s"
    and "configFileName files = Some q \<Longrightarrow>
         \<exists>s. readFile fs q = Inr s \<and> configFile entry = Some s"
  using assms
  by (auto simp: processConfigurableConfig_def read_optional_def split: sum.splits option.splits)

lemma configurable_entry_plain:
  "''__proto__'' \<notin> fst ` set acc
   \<Longrightarrow> configurable_entry acc k = field_of no_configurable_files acc k"
  by (simp add: configurable_entry_def Let_def field_of_absent [of "''__proto__''"]
      no_configurable_files_def inherit_nothing)

lemma ordinary_configurables_keys:
  assumes "ordinary_configurables files"
  shows "''__proto__'' \<notin> fst ` set (foldl (add_configurable_file dirPath) [] files)"
proof
  assume "''__proto__'' \<in> fst ` set (foldl (add_configurable_file dirPath) [] files)"
  then obtain f b where "f \<in> set files" "configurable_role f = Some (''__proto__'', b)"
    by (auto simp: configurables_keys)
  with assms have "ordinary ''__proto__''"
    by (auto simp: ordinary_configurables_def list_all_iff)
  then show False by (simp add: ordinary_def inherited_members_def)
qed

lemma getConfigurableConfigs_resolved:
  assumes "readdir fs dirPath = Inr files"
    and "getConfigurableConfigs fs dirPath type = Inr (Some result)"
  shows "promise_map
           (\<lambda>configurableName. processConfigurableConfig fs configurableName
              (configurable_entry (foldl (add_configurable_file dirPath) [] files)
                 configurableName))
           (own_keys (foldl (add_configurable_file dirPath) [] files)) = Inr result"
  using assms
  by (auto simp: getConfigurableConfigs_def Let_def catch_scan_def split: sum.splits if_splits)

section \<open>The scan of the database connections\<close>

lemma in_completion_order_issue: "in_completion_order in_issue_order path_of ops = ops"
proof -
  have "filter (\<lambda>i. i < length ops) [0..<length ops] = [0..<length ops]"
    by (simp add: filter_id_conv)
  then show ?thesis
    by (simp add: in_completion_order_def in_issue_order_def map_nth)
qed

lemma valid_in_issue_order: "valid_scheduler in_issue_order"
  by (simp add: valid_scheduler_def in_issue_order_def)

lemma valid_in_reverse_order: "valid_scheduler in_reverse_order"
  by (simp add: valid_scheduler_def in_reverse_order_def)

lemma mset_in_completion_order:
  assumes "valid_scheduler sch"
  shows "mset (in_completion_order sch path_of ops) = mset ops"
proof -
  let ?is = "sch (map path_of ops)"
  from assms have m: "mset ?is = mset [0..<length ops]"
    by (simp add: valid_scheduler_def)
  then have "set ?is = set [0..<length ops]" by (rule mset_eq_setD)
  then have "filter (\<lambda>i. i < length ops) ?is = ?is" by (auto simp: filter_id_conv)
  then have "mset (in_completion_order sch path_of ops) = image_mset (\<lambda>i. ops ! i) (mset ?is)"
    by (simp add: in_completion_order_def)
  also have "\<dots> = image_mset (\<lambda>i. ops ! i) (mset [0..<length ops])" by (simp only: m)
  also have "\<dots> = mset (map (\<lambda>i. ops ! i) [0..<length ops])" by simp
  also have "\<dots> = mset ops" by (simp only: map_nth)
  finally show ?thesis .
qed

lemma in_completion_order_map:
  "in_completion_order sch (\<lambda>p. p) (map g xs) = map g (in_completion_order sch g xs)"
  by (simp add: in_completion_order_def comp_def)

lemma details_in_connection:
  assumes "path_basename dirPath = DATABASE_CONNECTIONS_DIRECTORY c"
  shows "getDatabaseFileDetails c (path_join (path_join dirPath d) f)
         = (if is_script c f then Some (IsScript d (parse_name (parse_name f)))
            else if is_configuration f then Some (NotScript d)
            else None)"
  using assms
  by (auto simp: getDatabaseFileDetails_def Let_def path_join_def path_basename_def
      path_dirname_def butlast_append is_script_def is_configuration_def)

lemma add_database_file_in_connection:
  assumes "path_basename dirPath = DATABASE_CONNECTIONS_DIRECTORY c"
  shows "add_database_file c (path_join dirPath d) acc f
         = (if is_script c f
            then (if d \<in> set inherited_members
                  then Threw (TypeError_undefined ''push'')
                         (AList.update d (field_of no_database_files acc d) acc)
                  else Returned
                    (AList.update d
                       ((field_of no_database_files acc d)
                          \<lparr>db_scripts := db_scripts (field_of no_database_files acc d)
                             @ [\<lparr>sf_name = parse_name (parse_name f),
                                  sf_scriptFileName = path_join (path_join dirPath d) f\<rparr>]\<rparr>) acc))
            else if is_configuration f
            then Returned
                   (AList.update d
                      ((field_of no_database_files acc d)
                         \<lparr>db_configurationFileName := Some (path_join (path_join dirPath d) f)\<rparr>) acc)
            else Returned acc)"
  by (simp add: add_database_file_def Let_def details_in_connection [OF assms])

lemma forEach_returns:
  assumes "\<And>s x. x \<in> set xs \<Longrightarrow> callback s x = Returned (g s x)"
  shows "forEach callback xs s = Returned (foldl g s xs)"
  using assms by (induction xs arbitrary: s) simp_all

lemma record_in_connection:
  assumes "path_basename dirPath = DATABASE_CONNECTIONS_DIRECTORY c" and "d \<notin> set inherited_members"
  shows "add_database_file c (path_join dirPath d) acc f
         = Returned (after (add_database_file c (path_join dirPath d) acc f))"
    and "after (add_database_file c (path_join dirPath d) acc f)
         = (if is_script c f
            then AList.update d
                   ((field_of no_database_files acc d)
                      \<lparr>db_scripts := db_scripts (field_of no_database_files acc d)
                         @ [\<lparr>sf_name = parse_name (parse_name f),
                              sf_scriptFileName = path_join (path_join dirPath d) f\<rparr>]\<rparr>) acc
            else if is_configuration f
            then AList.update d
                   ((field_of no_database_files acc d)
                      \<lparr>db_configurationFileName := Some (path_join (path_join dirPath d) f)\<rparr>) acc
            else acc)"
  using assms(2) by (simp_all add: add_database_file_in_connection [OF assms(1)] after_def)

lemma scan_ordinary_connection:
  assumes "path_basename dirPath = DATABASE_CONNECTIONS_DIRECTORY c" and "d \<notin> set inherited_members"
  shows "scan_connection c fs acc (path_join dirPath d)
         = foldl (\<lambda>acc f. after (add_database_file c (path_join dirPath d) acc f)) acc
             (listed fs (path_join dirPath d))"
proof (cases "readdir fs (path_join dirPath d)")
  case (Inl e)
  then show ?thesis by (simp add: scan_connection_def listed_def)
next
  case (Inr files)
  have "forEach (add_database_file c (path_join dirPath d)) files acc
        = Returned (foldl (\<lambda>acc f. after (add_database_file c (path_join dirPath d) acc f)) acc files)"
    by (rule forEach_returns) (rule record_in_connection(1) [OF assms])
  with Inr show ?thesis by (simp add: scan_connection_def listed_def)
qed

lemma forEach_other_fields:
  assumes "path_basename dirPath = DATABASE_CONNECTIONS_DIRECTORY c" and "k \<noteq> d"
  shows "field_of no_database_files
           (after (forEach (add_database_file c (path_join dirPath d)) files acc)) k
         = field_of no_database_files acc k"
proof (induction files arbitrary: acc)
  case Nil
  then show ?case by (simp add: after_def)
next
  case (Cons f files)
  note step = add_database_file_in_connection [OF assms(1), of d acc f]
  show ?case
  proof (cases "add_database_file c (path_join dirPath d) acc f")
    case (Returned acc')
    with step assms(2) have "field_of no_database_files acc' k = field_of no_database_files acc k"
      by (auto simp: field_of_update split: if_splits)
    with Returned Cons.IH [of acc'] show ?thesis by simp
  next
    case (Threw e acc')
    with step assms(2) have "field_of no_database_files acc' k = field_of no_database_files acc k"
      by (auto simp: field_of_update split: if_splits)
    with Threw show ?thesis by (simp add: after_def)
  qed
qed

lemma forEach_keys:
  assumes "path_basename dirPath = DATABASE_CONNECTIONS_DIRECTORY c"
  shows "fst ` set (after (forEach (add_database_file c (path_join dirPath d)) files acc))
         = fst ` set acc
           \<union> (if \<exists>f\<in>set files. is_script c f \<or> is_configuration f then {d} else {})"
proof (induction files arbitrary: acc)
  case Nil
  then show ?case by (simp add: after_def)
next
  case (Cons f files)
  note step = add_database_file_in_connection [OF assms(1), of d acc f]
  show ?case
  proof (cases "add_database_file c (path_join dirPath d) acc f")
    case (Returned acc')
    with step have "fst ` set acc'
        = fst ` set acc \<union> (if is_script c f \<or> is_configuration f then {d} else {})"
      by (auto simp: keys_update split: if_splits)
    with Returned Cons.IH [of acc'] show ?thesis by auto
  next
    case (Threw e acc')
    with step have "is_script c f" and "fst ` set acc' = insert d (fst ` set acc)"
      by (auto simp: keys_update split: if_splits)
    with Threw show ?thesis by (auto simp: after_def)
  qed
qed

lemma scan_connection_after:
  "scan_connection c fs acc fullDir
   = after (forEach (add_database_file c fullDir) (listed fs fullDir) acc)"
  by (simp add: scan_connection_def listed_def after_def split: sum.splits ending.splits)

lemma connection_files_scripts:
  assumes "path_basename dirPath = DATABASE_CONNECTIONS_DIRECTORY c" and "d \<notin> set inherited_members"
  shows "db_scripts (field_of no_database_files
            (foldl (\<lambda>acc f. after (add_database_file c (path_join dirPath d) acc f)) acc files) k)
         = db_scripts (field_of no_database_files acc k)
           @ (if k = d then script_files_of c (path_join dirPath d) files else [])"
proof (induction files rule: rev_induct)
  case Nil
  then show ?case by (simp add: script_files_of_def)
next
  case (snoc f files)
  let ?acc = "foldl (\<lambda>acc f. after (add_database_file c (path_join dirPath d) acc f)) acc files"
  note step = record_in_connection(2) [OF assms, of ?acc f]
  show ?case
  proof (cases "k = d")
    case True
    with snoc.IH step show ?thesis
      by (simp add: field_of_update script_files_of_def)
  next
    case False
    with snoc.IH step show ?thesis
      by (simp add: field_of_update)
  qed
qed

lemma connection_files_configuration:
  assumes "path_basename dirPath = DATABASE_CONNECTIONS_DIRECTORY c" and "d \<notin> set inherited_members"
  shows "db_configurationFileName (field_of no_database_files
            (foldl (\<lambda>acc f. after (add_database_file c (path_join dirPath d) acc f)) acc files) k)
         = (if k = d
            then (case List.find is_configuration (rev files) of
                    None \<Rightarrow> db_configurationFileName (field_of no_database_files acc k)
                  | Some f \<Rightarrow> Some (path_join (path_join dirPath d) f))
            else db_configurationFileName (field_of no_database_files acc k))"
proof (induction files rule: rev_induct)
  case Nil
  then show ?case by simp
next
  case (snoc f files)
  let ?acc = "foldl (\<lambda>acc f. after (add_database_file c (path_join dirPath d) acc f)) acc files"
  note step = record_in_connection(2) [OF assms, of ?acc f]
  have "\<not> (is_script c f \<and> is_configuration f)"
    by (auto simp: is_script_def is_configuration_def)
  then show ?case
  proof (cases "k = d")
    case True
    with snoc.IH step \<open>\<not> (is_script c f \<and> is_configuration f)\<close> show ?thesis
      by (auto simp: field_of_update)
  next
    case False
    with snoc.IH step show ?thesis
      by (simp add: field_of_update)
  qed
qed

lemma connections_scripts:
  assumes "path_basename dirPath = DATABASE_CONNECTIONS_DIRECTORY c" and "k \<notin> set inherited_members"
  shows "db_scripts (field_of no_database_files
            (foldl (scan_connection c fs) acc (map (path_join dirPath) ds)) k)
         = db_scripts (field_of no_database_files acc k)
           @ concat (replicate (count_list ds k)
               (script_files_of c (path_join dirPath k) (listed fs (path_join dirPath k))))"
proof (induction ds rule: rev_induct)
  case Nil
  then show ?case by simp
next
  case (snoc d ds)
  show ?case
  proof (cases "d = k")
    case True
    have "replicate (Suc (count_list ds k)) x = replicate (count_list ds k) x @ [x]" for x :: "script_file list"
      by (simp add: replicate_append_same)
    with True snoc.IH show ?thesis
      by (simp add: scan_ordinary_connection [OF assms] connection_files_scripts [OF assms])
  next
    case False
    then have "k \<noteq> d" by simp
    with snoc.IH show ?thesis
      by (simp add: scan_connection_after forEach_other_fields [OF assms(1)])
  qed
qed

lemma connections_configuration:
  assumes "path_basename dirPath = DATABASE_CONNECTIONS_DIRECTORY c" and "k \<notin> set inherited_members"
  shows "db_configurationFileName (field_of no_database_files
            (foldl (scan_connection c fs) acc (map (path_join dirPath) ds)) k)
         = (if k \<in> set ds
            then (case List.find is_configuration (rev (listed fs (path_join dirPath k))) of
                    None \<Rightarrow> db_configurationFileName (field_of no_database_files acc k)
                  | Some f \<Rightarrow> Some (path_join (path_join dirPath k) f))
            else db_configurationFileName (field_of no_database_files acc k))"
proof (induction ds rule: rev_induct)
  case Nil
  then show ?case by simp
next
  case (snoc d ds)
  show ?case
  proof (cases "d = k")
    case True
    with snoc.IH show ?thesis
      by (auto simp: scan_ordinary_connection [OF assms] connection_files_configuration [OF assms]
          split: option.splits)
  next
    case False
    then have "k \<noteq> d" by simp
    with snoc.IH False show ?thesis
      by (simp add: scan_connection_after forEach_other_fields [OF assms(1)])
  qed
qed

lemma connections_keys:
  assumes "path_basename dirPath = DATABASE_CONNECTIONS_DIRECTORY c"
  shows "fst ` set (foldl (scan_connection c fs) acc (map (path_join dirPath) ds))
         = fst ` set acc
           \<union> {d \<in> set ds. \<exists>f\<in>set (listed fs (path_join dirPath d)).
                              is_script c f \<or> is_configuration f}"
proof (induction ds rule: rev_induct)
  case Nil
  then show ?case by simp
next
  case (snoc d ds)
  then show ?case
    by (auto simp: scan_connection_after forEach_keys [OF assms] split: if_splits)
qed

lemma database_entry_ordinary:
  assumes "k \<notin> set inherited_members"
  shows "\<exists>obj. database_entry acc k = Some obj
           \<and> db_scripts obj = db_scripts (field_of no_database_files acc k)
           \<and> db_configurationFileName obj
             = inherit (db_configurationFileName (field_of no_database_files acc k))
                 (db_configurationFileName (field_of no_database_files acc ''__proto__''))"
  using assms by (simp add: database_entry_def Let_def)

lemma database_entry_plain:
  assumes "k \<notin> set inherited_members" and "''__proto__'' \<notin> fst ` set acc"
  shows "database_entry acc k = Some (field_of no_database_files acc k)"
  using assms
  by (simp add: database_entry_def Let_def field_of_absent [of "''__proto__''"]
      no_database_files_def inherit_nothing)

lemma script_reads_append: "script_reads (map ReadScript xs @ rs) = xs @ script_reads rs"
  by (induction xs) simp_all

lemma script_reads_database_reads: "script_reads (database_reads obj) = db_scripts obj"
  by (simp add: database_reads_def script_reads_append split: option.splits)

lemma mset_script_reads:
  "mset (script_reads rs)
   = (\<Sum>r\<in>#mset rs. case r of ReadScript s \<Rightarrow> {#s#} | ReadConfiguration p \<Rightarrow> {#})"
  by (induction rs rule: script_reads.induct) simp_all

lemma settle_reads_resolved:
  "settle_reads fs rs db0 = Inr db \<Longrightarrow>
   database_name db = database_name db0
   \<and> map script_name (scripts db) = map script_name (scripts db0) @ map sf_name (script_reads rs)"
proof (induction rs arbitrary: db0)
  case Nil
  then show ?case by simp
next
  case (Cons r rs)
  from Cons.prems obtain contents where c: "readFile fs (read_path r) = Inr contents"
    and rest: "settle_reads fs rs (completed r contents db0) = Inr db"
    by (auto split: sum.splits)
  from Cons.IH [OF rest] show ?case by (cases r) simp_all
qed

lemma settle_reads_readable:
  "(\<forall>r\<in>set rs. \<exists>s. readFile fs (read_path r) = Inr s) \<Longrightarrow> \<exists>db. settle_reads fs rs db0 = Inr db"
proof (induction rs arbitrary: db0)
  case Nil
  then show ?case by simp
next
  case (Cons r rs)
  from Cons.prems obtain s where "readFile fs (read_path r) = Inr s" by auto
  moreover from Cons.prems have "\<exists>db. settle_reads fs rs (completed r s db0) = Inr db"
    by (intro Cons.IH) auto
  ultimately show ?case by simp
qed

lemma readDatabaseFiles_entry:
  assumes "readDatabaseFiles sch fs n entry = Inr db"
  shows "\<exists>obj. entry = Some obj"
  using assms by (cases entry) (simp_all add: readDatabaseFiles_def)

lemma readDatabaseFiles_resolved:
  assumes "readDatabaseFiles sch fs n (Some obj) = Inr db"
  shows "database_name db = n"
    and "map script_name (scripts db)
         = map sf_name (script_reads (in_completion_order sch read_path (database_reads obj)))"
  using settle_reads_resolved [OF assms [unfolded readDatabaseFiles_def option.case]] by simp_all

lemma readDatabaseFiles_names:
  assumes "readDatabaseFiles sch fs n (Some obj) = Inr db" and "valid_scheduler sch"
  shows "mset (map script_name (scripts db)) = mset (map sf_name (db_scripts obj))"
proof -
  have "mset (script_reads (in_completion_order sch read_path (database_reads obj)))
        = mset (script_reads (database_reads obj))"
    by (simp only: mset_script_reads mset_in_completion_order [OF assms(2)])
  then have "mset (script_reads (in_completion_order sch read_path (database_reads obj)))
             = mset (db_scripts obj)"
    by (simp add: script_reads_database_reads)
  then have "image_mset sf_name (mset (script_reads (in_completion_order sch read_path (database_reads obj))))
             = image_mset sf_name (mset (db_scripts obj))"
    by simp
  with readDatabaseFiles_resolved(2) [OF assms(1)] show ?thesis by simp
qed

lemma promise_map_all_resolve:
  "(\<forall>x\<in>set xs. \<exists>y. mapper x = Inr y) \<Longrightarrow> \<exists>ys. promise_map mapper xs = Inr ys"
proof (induction xs)
  case Nil
  then show ?case by simp
next
  case (Cons x xs)
  then obtain y ys where "mapper x = Inr y" "promise_map mapper xs = Inr ys" by auto
  then show ?case by simp
qed

lemma getDatabases_resolved:
  assumes "readdir fs dirPath = Inr dirs"
    and "getDatabases c sch fs dirPath = Inr (Some result)"
  shows "promise_map
           (\<lambda>databaseName. readDatabaseFiles sch fs databaseName
              (database_entry
                 (foldl (scan_connection c fs) []
                    (map (path_join dirPath) (in_completion_order sch (path_join dirPath) dirs)))
                 databaseName))
           (own_keys
              (foldl (scan_connection c fs) []
                 (map (path_join dirPath) (in_completion_order sch (path_join dirPath) dirs))))
         = Inr result"
  using assms
  by (auto simp: getDatabases_def Let_def catch_scan_def in_completion_order_map
      split: sum.splits if_splits)

lemma getDatabases_mapped:
  assumes "readdir fs dirPath = Inr dirs"
    and "promise_map
           (\<lambda>databaseName. readDatabaseFiles sch fs databaseName
              (database_entry
                 (foldl (scan_connection c fs) []
                    (map (path_join dirPath) (in_completion_order sch (path_join dirPath) dirs)))
                 databaseName))
           (own_keys
              (foldl (scan_connection c fs) []
                 (map (path_join dirPath) (in_completion_order sch (path_join dirPath) dirs))))
         = Inr result"
  shows "getDatabases c sch fs dirPath = Inr (Some result)"
  using assms by (simp add: getDatabases_def Let_def in_completion_order_map)

lemma path_basename_join: "path_basename (path_join root d) = d"
  by (simp add: path_basename_def path_join_def)

lemma field_of_empty: "field_of d [] k = d"
  by (simp add: field_of_def)

lemma no_database_files_fields:
  "db_scripts no_database_files = []" "db_configurationFileName no_database_files = None"
  by (simp_all add: no_database_files_def)

lemma find_in_set: "List.find P xs = Some x \<Longrightarrow> x \<in> set xs"
  by (auto simp: find_Some_iff)

lemma set_in_completion_order:
  assumes "valid_scheduler sch"
  shows "set (in_completion_order sch path_of ops) = set ops"
  using mset_in_completion_order [OF assms, of path_of ops] by (rule mset_eq_setD)

lemma database_reads_paths:
  assumes "r \<in> set (database_reads obj)"
  shows "(\<exists>s\<in>set (db_scripts obj). read_path r = sf_scriptFileName s)
         \<or> db_configurationFileName obj = Some (read_path r)"
  using assms by (auto simp: database_reads_def split: option.splits)

lemma promise_map_names:
  assumes "promise_map mapper xs = Inr ys"
    and "\<And>x y. mapper x = Inr y \<Longrightarrow> name_of y = x"
  shows "map name_of ys = xs"
proof -
  from assms(1) have "list_all2 (\<lambda>x y. mapper x = Inr y) xs ys" by (rule promise_map_resolved)
  then have "list_all2 (\<lambda>x y. name_of y = x) xs ys"
    by (rule list_all2_mono) (rule assms(2))
  then show ?thesis
    by (induction xs ys rule: list_all2_induct) simp_all
qed

section \<open>The scan of the database connections under two completion orders\<close>

lemma script_reads_snoc: "script_reads (rs @ [r]) = script_reads rs @ script_reads [r]"
  by (induction rs rule: script_reads.induct) simp_all

lemma configuration_reads_snoc:
  "configuration_reads (rs @ [r]) = configuration_reads rs @ configuration_reads [r]"
  by (induction rs rule: configuration_reads.induct) simp_all

lemma mset_configuration_reads:
  "mset (configuration_reads rs)
   = (\<Sum>r\<in>#mset rs. case r of ReadScript s \<Rightarrow> {#} | ReadConfiguration p \<Rightarrow> {#p#})"
  by (induction rs rule: configuration_reads.induct) simp_all

lemma configuration_reads_database_reads:
  "configuration_reads (database_reads obj)
   = (case db_configurationFileName obj of None \<Rightarrow> [] | Some p \<Rightarrow> [p])"
proof -
  have "configuration_reads (map ReadScript xs @ rs) = configuration_reads rs" for xs rs
    by (induction xs) simp_all
  then show ?thesis by (simp add: database_reads_def split: option.splits)
qed

lemma settle_reads_iff:
  "settle_reads fs rs db0 = Inr db \<longleftrightarrow>
     (\<forall>r\<in>set rs. \<exists>s. readFile fs (read_path r) = Inr s)
     \<and> db = foldl (\<lambda>d r. completed r (file_contents fs (read_path r)) d) db0 rs"
proof (induction rs arbitrary: db0)
  case Nil
  then show ?case by auto
next
  case (Cons r rs)
  show ?case
  proof (cases "readFile fs (read_path r)")
    case (Inl e)
    then show ?thesis by auto
  next
    case (Inr s)
    then have "file_contents fs (read_path r) = s" by (simp add: file_contents_def)
    with Inr Cons.IH [of "completed r s db0"] show ?thesis by simp
  qed
qed

lemma loaded_database:
  fixes fs db0
  defines "load \<equiv> foldl (\<lambda>d r. completed r (file_contents fs (read_path r)) d) db0"
  shows "database_name (load rs) = database_name db0"
    and "scripts (load rs)
         = scripts db0
           @ map (\<lambda>s. \<lparr>script_name = sf_name s, scriptFile = file_contents fs (sf_scriptFileName s)\<rparr>)
               (script_reads rs)"
    and "configurationFileName (load rs)
         = (if configuration_reads rs = [] then configurationFileName db0
            else Some (last (configuration_reads rs)))"
    and "configurationFile (load rs)
         = (if configuration_reads rs = [] then configurationFile db0
            else Some (file_contents fs (last (configuration_reads rs))))"
proof (induction rs rule: rev_induct)
  case Nil
  {
    case 1 show ?case by (simp add: load_def)
  next
    case 2 show ?case by (simp add: load_def)
  next
    case 3 show ?case by (simp add: load_def)
  next
    case 4 show ?case by (simp add: load_def)
  }
next
  case (snoc r rs)
  have step: "load (rs @ [r]) = completed r (file_contents fs (read_path r)) (load rs)"
    by (simp add: load_def)
  {
    case 1 from snoc(1) show ?case unfolding step by (cases r) simp_all
  next
    case 2 from snoc(2) show ?case
      unfolding step by (cases r) (simp_all add: script_reads_snoc)
  next
    case 3 from snoc(3) show ?case
      unfolding step by (cases r) (simp_all add: configuration_reads_snoc)
  next
    case 4 from snoc(4) show ?case
      unfolding step by (cases r) (simp_all add: configuration_reads_snoc)
  }
qed

lemma readDatabaseFiles_loaded:
  assumes valid: "valid_scheduler sch"
    and read: "readDatabaseFiles sch fs n (Some obj) = Inr db"
  shows "database_name db = n"
    and "mset (scripts db)
         = image_mset (\<lambda>s. \<lparr>script_name = sf_name s, scriptFile = file_contents fs (sf_scriptFileName s)\<rparr>)
             (mset (db_scripts obj))"
    and "configurationFileName db = db_configurationFileName obj"
    and "configurationFile db = map_option (file_contents fs) (db_configurationFileName obj)"
    and "\<forall>r\<in>set (database_reads obj). \<exists>s. readFile fs (read_path r) = Inr s"
proof -
  let ?db0 = "\<lparr>database_name = n, scripts = [], configurationFile = None,
               configurationFileName = None\<rparr>"
  let ?rs = "in_completion_order sch read_path (database_reads obj)"
  let ?load = "foldl (\<lambda>d r. completed r (file_contents fs (read_path r)) d) ?db0"
  have m: "mset ?rs = mset (database_reads obj)" using valid by (rule mset_in_completion_order)
  from read have ok: "\<forall>r\<in>set ?rs. \<exists>s. readFile fs (read_path r) = Inr s" and db: "db = ?load ?rs"
    by (simp_all add: readDatabaseFiles_def settle_reads_iff)
  from m have "set ?rs = set (database_reads obj)" by (rule mset_eq_setD)
  with ok show "\<forall>r\<in>set (database_reads obj). \<exists>s. readFile fs (read_path r) = Inr s"
    by simp
  show "database_name db = n"
    by (simp add: db loaded_database(1))
  have "mset (script_reads ?rs) = mset (script_reads (database_reads obj))"
    by (simp only: mset_script_reads m)
  then have scr: "mset (script_reads ?rs) = mset (db_scripts obj)"
    by (simp add: script_reads_database_reads)
  have "mset (scripts db)
        = image_mset (\<lambda>s. \<lparr>script_name = sf_name s, scriptFile = file_contents fs (sf_scriptFileName s)\<rparr>)
            (mset (script_reads ?rs))"
    by (simp add: db loaded_database(2))
  then show "mset (scripts db)
         = image_mset (\<lambda>s. \<lparr>script_name = sf_name s, scriptFile = file_contents fs (sf_scriptFileName s)\<rparr>)
             (mset (db_scripts obj))"
    by (simp only: scr)
  have "mset (configuration_reads ?rs) = mset (configuration_reads (database_reads obj))"
    by (simp only: mset_configuration_reads m)
  then have cfg: "configuration_reads ?rs
                  = (case db_configurationFileName obj of None \<Rightarrow> [] | Some p \<Rightarrow> [p])"
    by (auto simp: configuration_reads_database_reads split: option.splits)
  show "configurationFileName db = db_configurationFileName obj"
    by (simp add: db loaded_database(3) cfg split: option.splits)
  show "configurationFile db = map_option (file_contents fs) (db_configurationFileName obj)"
    by (simp add: db loaded_database(4) cfg split: option.splits)
qed

lemma readDatabaseFiles_content:
  assumes s1: "valid_scheduler s1" and s2: "valid_scheduler s2"
    and read: "readDatabaseFiles s1 fs n (Some obj) = Inr db1"
  shows "\<exists>db2. readDatabaseFiles s2 fs n (Some obj) = Inr db2
           \<and> database_content db2 = database_content db1"
proof -
  let ?db0 = "\<lparr>database_name = n, scripts = [], configurationFile = None,
               configurationFileName = None\<rparr>"
  let ?r2 = "in_completion_order s2 read_path (database_reads obj)"
  have m2: "mset ?r2 = mset (database_reads obj)" using s2 by (rule mset_in_completion_order)
  then have "set ?r2 = set (database_reads obj)" by (rule mset_eq_setD)
  with readDatabaseFiles_loaded(5) [OF s1 read]
  have "\<forall>r\<in>set ?r2. \<exists>s. readFile fs (read_path r) = Inr s" by simp
  then obtain db2 where "settle_reads fs ?r2 ?db0 = Inr db2"
    using settle_reads_readable by blast
  then have r2: "readDatabaseFiles s2 fs n (Some obj) = Inr db2"
    by (simp add: readDatabaseFiles_def)
  from readDatabaseFiles_loaded(1-4) [OF s1 read] readDatabaseFiles_loaded(1-4) [OF s2 r2]
  have "database_content db2 = database_content db1"
    by (simp add: database_content_def)
  with r2 show ?thesis by blast
qed

lemma ordinary_table:
  assumes base: "path_basename dirPath = DATABASE_CONNECTIONS_DIRECTORY c"
    and names: "\<forall>d\<in>set ds. d \<notin> set inherited_members"
  shows "''__proto__'' \<notin> fst ` set (foldl (scan_connection c fs) [] (map (path_join dirPath) ds))"
    and "k \<in> fst ` set (foldl (scan_connection c fs) [] (map (path_join dirPath) ds))
         \<Longrightarrow> k \<notin> set inherited_members"
proof -
  let ?acc = "foldl (scan_connection c fs) [] (map (path_join dirPath) ds)"
  have keys: "fst ` set ?acc \<subseteq> set ds"
    by (auto simp: connections_keys [OF base])
  show "k \<notin> set inherited_members" if "k \<in> fst ` set ?acc"
    using that keys names by blast
  show "''__proto__'' \<notin> fst ` set ?acc"
  proof
    assume "''__proto__'' \<in> fst ` set ?acc"
    with keys names have "''__proto__'' \<notin> set inherited_members" by blast
    then show False by (simp add: inherited_members_def)
  qed
qed

lemma getDatabases_ordinary:
  assumes valid: "valid_scheduler sch"
    and dir: "dirPath = path_join root (DATABASE_CONNECTIONS_DIRECTORY c)"
    and listing: "readdir fs dirPath = Inr dirs"
    and names: "\<forall>d\<in>set dirs. d \<notin> set inherited_members"
    and readable: "\<forall>d\<in>set dirs. \<forall>f\<in>set (listed fs (path_join dirPath d)).
                     is_script c f \<or> is_configuration f
                     \<longrightarrow> (\<exists>s. readFile fs (path_join (path_join dirPath d) f) = Inr s)"
  shows "\<exists>result. getDatabases c sch fs dirPath = Inr (Some result)
           \<and> database_name ` set result
             = {d \<in> set dirs. \<exists>f\<in>set (listed fs (path_join dirPath d)).
                                is_script c f \<or> is_configuration f}"
proof -
  let ?ds = "in_completion_order sch (path_join dirPath) dirs"
  let ?acc = "foldl (scan_connection c fs) [] (map (path_join dirPath) ?ds)"
  let ?mapper = "\<lambda>databaseName. readDatabaseFiles sch fs databaseName
                   (database_entry ?acc databaseName)"
  have base: "path_basename dirPath = DATABASE_CONNECTIONS_DIRECTORY c"
    by (simp add: dir path_basename_join)
  have ds: "set ?ds = set dirs" using valid by (rule set_in_completion_order)
  with names have names': "\<forall>d\<in>set ?ds. d \<notin> set inherited_members" by simp
  note plain = ordinary_table [OF base names', where fs = fs]
  have keys: "set (own_keys ?acc)
              = {d \<in> set dirs. \<exists>f\<in>set (listed fs (path_join dirPath d)).
                                 is_script c f \<or> is_configuration f}"
    by (simp add: own_keys_plain [OF plain(1)] set_object_keys connections_keys [OF base] ds)
  have "\<exists>db. ?mapper k = Inr db" if k: "k \<in> set (own_keys ?acc)" for k
  proof -
    let ?obj = "field_of no_database_files ?acc k"
    from k keys have kd: "k \<in> set dirs" by blast
    with names have ord: "k \<notin> set inherited_members" by blast
    have entry: "database_entry ?acc k = Some ?obj"
      using ord plain(1) by (rule database_entry_plain)
    have "\<exists>s. readFile fs (read_path r) = Inr s"
      if r: "r \<in> set (in_completion_order sch read_path (database_reads ?obj))" for r
    proof -
      from r have "r \<in> set (database_reads ?obj)"
        by (simp add: set_in_completion_order [OF valid])
      then consider s where "s \<in> set (db_scripts ?obj)" "read_path r = sf_scriptFileName s"
        | "db_configurationFileName ?obj = Some (read_path r)"
        using database_reads_paths by blast
      then have "\<exists>f\<in>set (listed fs (path_join dirPath k)).
                   (is_script c f \<or> is_configuration f)
                   \<and> read_path r = path_join (path_join dirPath k) f"
      proof cases
        case 1
        from 1(1) have "s \<in> set (script_files_of c (path_join dirPath k) (listed fs (path_join dirPath k)))"
          by (auto simp: connections_scripts [OF base ord] field_of_empty no_database_files_fields)
        with 1(2) show ?thesis by (auto simp: script_files_of_def)
      next
        case 2
        then obtain f where f: "List.find is_configuration (rev (listed fs (path_join dirPath k))) = Some f"
          and p: "read_path r = path_join (path_join dirPath k) f"
          by (auto simp: connections_configuration [OF base ord] field_of_empty no_database_files_fields
              split: if_splits option.splits)
        from f have "f \<in> set (rev (listed fs (path_join dirPath k)))" by (rule find_in_set)
        then have "f \<in> set (listed fs (path_join dirPath k))" by simp
        moreover from f have "is_configuration f" by (auto simp: find_Some_iff)
        ultimately show ?thesis using p by blast
      qed
      with readable kd show ?thesis by auto
    qed
    then have "\<exists>db. settle_reads fs (in_completion_order sch read_path (database_reads ?obj))
                  \<lparr>database_name = k, scripts = [], configurationFile = None,
                   configurationFileName = None\<rparr> = Inr db"
      by (intro settle_reads_readable) blast
    then show ?thesis
      by (simp add: entry readDatabaseFiles_def)
  qed
  then have "\<exists>ys. promise_map ?mapper (own_keys ?acc) = Inr ys"
    by (intro promise_map_all_resolve) blast
  then obtain result where mapped: "promise_map ?mapper (own_keys ?acc) = Inr result" ..
  then have res: "getDatabases c sch fs dirPath = Inr (Some result)"
    using listing by (intro getDatabases_mapped)
  have "name_of_mapped = k" if "?mapper k = Inr y" "name_of_mapped = database_name y"
    for k y name_of_mapped
  proof -
    from readDatabaseFiles_entry [OF that(1)] obtain obj where "database_entry ?acc k = Some obj"
      by blast
    with that(1) have "readDatabaseFiles sch fs k (Some obj) = Inr y" by simp
    from readDatabaseFiles_resolved(1) [OF this] that(2) show ?thesis by simp
  qed
  then have "\<And>x y. ?mapper x = Inr y \<Longrightarrow> database_name y = x" by blast
  with mapped have "map database_name result = own_keys ?acc"
    by (rule promise_map_names)
  then have "set (map database_name result) = set (own_keys ?acc)" by simp
  with keys res show ?thesis by auto
qed

section \<open>The runs of a mapped promise\<close>

lemma set_drop_nth: "set (drop_nth i xs) \<subseteq> set xs"
  by (auto simp: drop_nth_def dest: in_set_takeD in_set_dropD)

lemma length_drop_nth: "length (drop_nth i xs) \<le> length xs"
  by (simp add: drop_nth_def)

lemma mset_drop_nth:
  assumes "k < length xs"
  shows "add_mset (xs ! k) (mset (drop_nth k xs)) = mset xs"
proof -
  from assms have "xs = take k xs @ xs ! k # drop (Suc k) xs"
    by (rule id_take_nth_drop)
  then have "mset xs = mset (take k xs @ xs ! k # drop (Suc k) xs)"
    by simp
  then show ?thesis
    by (simp add: drop_nth_def)
qed

lemma feeds_snoc:
  "feeds m fs object (done @ [r]) = handler m r (file_contents fs (target m r)) (feeds m fs object done)"
  by (simp add: feeds_def)

lemma readable_contents:
  "readFile fs p = Inr contents \<Longrightarrow> readable fs p \<and> file_contents fs p = contents"
  by (simp add: readable_def file_contents_def)

lemma consistent_start: "consistent m fs ks (start ks)"
  by (auto simp: consistent_def start_def in_set_enumerate_eq)

lemma consistent_reject:
  assumes "consistent m fs ks s"
    and "\<exists>k\<in>set ks.
           called m k = Inl e
           \<or> (\<exists>reads object r. called m k = Inr (reads, object) \<and> r \<in> set reads
                  \<and> readFile fs (target m r) = Inl e)"
  shows "consistent m fs ks (reject e s)"
  using assms unfolding consistent_def reject_def
  by (cases "rejection s") simp_all

lemma consistentI:
  assumes "length (results s) = length ks"
    and "\<And>w. w \<in> set (waiting s) \<Longrightarrow> fst w < length ks \<and> snd w = ks ! fst w"
    and "\<And>this. this \<in> set (pending s) \<Longrightarrow>
           call_index this < length ks
           \<and> (\<exists>reads object.
                 called m (ks ! call_index this) = Inr (reads, object)
                 \<and> set (outstanding this) \<subseteq> set reads
                 \<and> (\<not> failed this \<longrightarrow>
                      (\<exists>done. mset done + mset (outstanding this) = mset reads
                          \<and> (\<forall>r\<in>set done. readable fs (target m r))
                          \<and> entity this = feeds m fs object done)))"
    and "\<And>n e. n < length ks \<Longrightarrow> results s ! n = Some e \<Longrightarrow>
           \<exists>reads object done.
               called m (ks ! n) = Inr (reads, object)
               \<and> mset done = mset reads
               \<and> (\<forall>r\<in>set done. readable fs (target m r))
               \<and> e = feeds m fs object done"
    and "\<And>e. rejection s = Some e \<Longrightarrow>
           \<exists>k\<in>set ks.
               called m k = Inl e
               \<or> (\<exists>reads object r. called m k = Inr (reads, object) \<and> r \<in> set reads
                      \<and> readFile fs (target m r) = Inl e)"
  shows "consistent m fs ks s"
  unfolding consistent_def using assms by blast

lemma consistent_positions:
  "consistent m fs ks s \<Longrightarrow> length (results s) = length ks"
  by (simp add: consistent_def)

lemma consistent_waiting:
  "consistent m fs ks s \<Longrightarrow> w \<in> set (waiting s) \<Longrightarrow> fst w < length ks \<and> snd w = ks ! fst w"
  unfolding consistent_def by blast

lemma consistent_pending:
  "consistent m fs ks s \<Longrightarrow> this \<in> set (pending s) \<Longrightarrow>
     call_index this < length ks
     \<and> (\<exists>reads object.
           called m (ks ! call_index this) = Inr (reads, object)
           \<and> set (outstanding this) \<subseteq> set reads
           \<and> (\<not> failed this \<longrightarrow>
                (\<exists>done. mset done + mset (outstanding this) = mset reads
                    \<and> (\<forall>r\<in>set done. readable fs (target m r))
                    \<and> entity this = feeds m fs object done)))"
  unfolding consistent_def by blast

lemma consistent_results:
  "consistent m fs ks s \<Longrightarrow> n < length ks \<Longrightarrow> results s ! n = Some e \<Longrightarrow>
     \<exists>reads object done.
         called m (ks ! n) = Inr (reads, object)
         \<and> mset done = mset reads
         \<and> (\<forall>r\<in>set done. readable fs (target m r))
         \<and> e = feeds m fs object done"
  unfolding consistent_def by blast

lemma consistent_rejection:
  "consistent m fs ks s \<Longrightarrow> rejection s = Some e \<Longrightarrow>
     \<exists>k\<in>set ks.
         called m k = Inl e
         \<or> (\<exists>reads object r. called m k = Inr (reads, object) \<and> r \<in> set reads
                \<and> readFile fs (target m r) = Inl e)"
  unfolding consistent_def by blast

lemma consistent_update:
  assumes ok: "consistent m fs ks s"
    and same: "results s' = results s" "rejection s' = rejection s"
    and fewer: "set (waiting s') \<subseteq> set (waiting s)"
    and calls: "\<And>this. this \<in> set (pending s') \<Longrightarrow> this \<notin> set (pending s) \<Longrightarrow>
           call_index this < length ks
           \<and> (\<exists>reads object.
                 called m (ks ! call_index this) = Inr (reads, object)
                 \<and> set (outstanding this) \<subseteq> set reads
                 \<and> (\<not> failed this \<longrightarrow>
                      (\<exists>done. mset done + mset (outstanding this) = mset reads
                          \<and> (\<forall>r\<in>set done. readable fs (target m r))
                          \<and> entity this = feeds m fs object done)))"
  shows "consistent m fs ks s'"
proof (rule consistentI)
  show "length (results s') = length ks"
    using consistent_positions [OF ok] same(1) by simp
next
  fix w
  assume "w \<in> set (waiting s')"
  with fewer have "w \<in> set (waiting s)" by blast
  then show "fst w < length ks \<and> snd w = ks ! fst w" by (rule consistent_waiting [OF ok])
next
  fix this
  assume mem: "this \<in> set (pending s')"
  show "call_index this < length ks
           \<and> (\<exists>reads object.
                 called m (ks ! call_index this) = Inr (reads, object)
                 \<and> set (outstanding this) \<subseteq> set reads
                 \<and> (\<not> failed this \<longrightarrow>
                      (\<exists>done. mset done + mset (outstanding this) = mset reads
                          \<and> (\<forall>r\<in>set done. readable fs (target m r))
                          \<and> entity this = feeds m fs object done)))"
  proof (cases "this \<in> set (pending s)")
    case True
    then show ?thesis by (rule consistent_pending [OF ok])
  next
    case False
    with mem show ?thesis by (rule calls)
  qed
next
  fix n e
  assume "n < length ks" "results s' ! n = Some e"
  then have "n < length ks" "results s ! n = Some e" by (simp_all add: same(1))
  then show "\<exists>reads object done.
               called m (ks ! n) = Inr (reads, object)
               \<and> mset done = mset reads
               \<and> (\<forall>r\<in>set done. readable fs (target m r))
               \<and> e = feeds m fs object done"
    by (rule consistent_results [OF ok])
next
  fix e
  assume "rejection s' = Some e"
  then have "rejection s = Some e" by (simp add: same(2))
  then show "\<exists>k\<in>set ks.
               called m k = Inl e
               \<or> (\<exists>reads object r. called m k = Inr (reads, object) \<and> r \<in> set reads
                      \<and> readFile fs (target m r) = Inl e)"
    by (rule consistent_rejection [OF ok])
qed

lemma consistent_invoke:
  assumes ok: "consistent m fs ks s"
    and i: "i < length (waiting s)"
  shows "case called m (snd (waiting s ! i)) of
           Inl e \<Rightarrow> consistent m fs ks (reject e (s\<lparr>waiting := drop_nth i (waiting s)\<rparr>))
         | Inr (reads, object) \<Rightarrow>
             consistent m fs ks
               (s\<lparr>waiting := drop_nth i (waiting s),
                  pending := pending s
                    @ [\<lparr>call_index = fst (waiting s ! i), outstanding = reads,
                        entity = object, failed = False\<rparr>]\<rparr>)"
proof -
  let ?w = "waiting s ! i"
  from i have "?w \<in> set (waiting s)" by simp
  from consistent_waiting [OF ok this] have n: "fst ?w < length ks" and k: "snd ?w = ks ! fst ?w"
    by simp_all
  from n k have kin: "snd ?w \<in> set ks" by simp
  have fewer: "consistent m fs ks (s\<lparr>waiting := drop_nth i (waiting s)\<rparr>)"
    using ok by (rule consistent_update) (use set_drop_nth [of i "waiting s"] in simp_all)
  show ?thesis
  proof (cases "called m (snd ?w)")
    case (Inl e)
    with kin have "\<exists>k\<in>set ks.
           called m k = Inl e
           \<or> (\<exists>reads object r. called m k = Inr (reads, object) \<and> r \<in> set reads
                  \<and> readFile fs (target m r) = Inl e)"
      by blast
    with fewer have "consistent m fs ks (reject e (s\<lparr>waiting := drop_nth i (waiting s)\<rparr>))"
      by (rule consistent_reject)
    with Inl show ?thesis by simp
  next
    case (Inr issued_reads)
    obtain reads object where io: "issued_reads = (reads, object)" by (cases issued_reads)
    let ?new = "\<lparr>call_index = fst ?w, outstanding = reads, entity = object, failed = False\<rparr>"
    have "consistent m fs ks
            (s\<lparr>waiting := drop_nth i (waiting s), pending := pending s @ [?new]\<rparr>)"
      using ok
    proof (rule consistent_update)
      fix this
      assume "this \<in> set (pending (s\<lparr>waiting := drop_nth i (waiting s), pending := pending s @ [?new]\<rparr>))"
        and "this \<notin> set (pending s)"
      then have new: "this = ?new" by auto
      have "mset [] + mset reads = mset reads \<and> (\<forall>r\<in>set []. readable fs (target m r))
            \<and> object = feeds m fs object []"
        by (simp add: feeds_def)
      then have "\<exists>done. mset done + mset reads = mset reads
                   \<and> (\<forall>r\<in>set done. readable fs (target m r))
                   \<and> object = feeds m fs object done"
        by (rule exI)
      with new n k Inr io
      show "call_index this < length ks
           \<and> (\<exists>reads object.
                 called m (ks ! call_index this) = Inr (reads, object)
                 \<and> set (outstanding this) \<subseteq> set reads
                 \<and> (\<not> failed this \<longrightarrow>
                      (\<exists>done. mset done + mset (outstanding this) = mset reads
                          \<and> (\<forall>r\<in>set done. readable fs (target m r))
                          \<and> entity this = feeds m fs object done)))"
        by auto
    qed (use set_drop_nth [of i "waiting s"] in simp_all)
    with Inr io show ?thesis by simp
  qed
qed

lemma consistent_complete:
  assumes ok: "consistent m fs ks s"
    and j: "j < length (pending s)"
    and k: "k < length (outstanding (pending s ! j))"
  shows "case readFile fs (target m (outstanding (pending s ! j) ! k)) of
           Inl e \<Rightarrow>
             consistent m fs ks
               (reject e (s\<lparr>pending := (pending s)
                  [j := (pending s ! j)\<lparr>outstanding := drop_nth k (outstanding (pending s ! j)),
                                          failed := True\<rparr>]\<rparr>))
         | Inr contents \<Rightarrow>
             consistent m fs ks
               (s\<lparr>pending := (pending s)
                  [j := (pending s ! j)\<lparr>outstanding := drop_nth k (outstanding (pending s ! j)),
                        entity := handler m (outstanding (pending s ! j) ! k) contents
                                    (entity (pending s ! j))\<rparr>]\<rparr>)"
proof -
  let ?old = "pending s ! j"
  let ?r = "outstanding ?old ! k"
  let ?rest = "drop_nth k (outstanding ?old)"
  from j have "?old \<in> set (pending s)" by simp
  from consistent_pending [OF ok this]
  obtain reads object where n: "call_index ?old < length ks"
    and called: "called m (ks ! call_index ?old) = Inr (reads, object)"
    and sub: "set (outstanding ?old) \<subseteq> set reads"
    and fed: "\<not> failed ?old \<longrightarrow>
                (\<exists>done. mset done + mset (outstanding ?old) = mset reads
                    \<and> (\<forall>r\<in>set done. readable fs (target m r))
                    \<and> entity ?old = feeds m fs object done)"
    by blast
  from k have rin: "?r \<in> set (outstanding ?old)" by simp
  with sub have rreads: "?r \<in> set reads" by blast
  from set_drop_nth [of k "outstanding ?old"] sub have sub': "set ?rest \<subseteq> set reads" by blast
  from n have kin: "ks ! call_index ?old \<in> set ks" by simp
  show ?thesis
  proof (cases "readFile fs (target m ?r)")
    case (Inl e)
    let ?new = "?old\<lparr>outstanding := ?rest, failed := True\<rparr>"
    have "consistent m fs ks (s\<lparr>pending := (pending s)[j := ?new]\<rparr>)"
      using ok
    proof (rule consistent_update)
      fix this
      assume "this \<in> set (pending (s\<lparr>pending := (pending s)[j := ?new]\<rparr>))"
        and "this \<notin> set (pending s)"
      then have new: "this = ?new"
        using set_update_subset_insert [of "pending s" j ?new] by auto
      from new n called sub'
      show "call_index this < length ks
           \<and> (\<exists>reads object.
                 called m (ks ! call_index this) = Inr (reads, object)
                 \<and> set (outstanding this) \<subseteq> set reads
                 \<and> (\<not> failed this \<longrightarrow>
                      (\<exists>done. mset done + mset (outstanding this) = mset reads
                          \<and> (\<forall>r\<in>set done. readable fs (target m r))
                          \<and> entity this = feeds m fs object done)))"
        by simp
    qed simp_all
    moreover from kin called rreads Inl
    have "\<exists>k\<in>set ks.
           called m k = Inl e
           \<or> (\<exists>reads object r. called m k = Inr (reads, object) \<and> r \<in> set reads
                  \<and> readFile fs (target m r) = Inl e)"
      by blast
    ultimately have "consistent m fs ks (reject e (s\<lparr>pending := (pending s)[j := ?new]\<rparr>))"
      by (rule consistent_reject)
    with Inl show ?thesis by simp
  next
    case (Inr contents)
    let ?new = "?old\<lparr>outstanding := ?rest, entity := handler m ?r contents (entity ?old)\<rparr>"
    from readable_contents [OF Inr]
    have rd: "readable fs (target m ?r)" and fc: "file_contents fs (target m ?r) = contents"
      by simp_all
    have fed': "\<not> failed ?old \<longrightarrow>
                (\<exists>done. mset done + mset ?rest = mset reads
                    \<and> (\<forall>r\<in>set done. readable fs (target m r))
                    \<and> handler m ?r contents (entity ?old) = feeds m fs object done)"
    proof
      assume "\<not> failed ?old"
      with fed obtain ds where d: "mset ds + mset (outstanding ?old) = mset reads"
        and rds: "\<forall>r\<in>set ds. readable fs (target m r)"
        and e: "entity ?old = feeds m fs object ds"
        by blast
      from mset_drop_nth [OF k] d
      have "mset (ds @ [?r]) + mset ?rest = mset reads"
        by (metis add_mset_add_single mset.simps(2) mset_append union_mset_add_mset_right
            add.assoc add.commute mset.simps(1) empty_neutral(1))
      moreover from rds rd have "\<forall>r\<in>set (ds @ [?r]). readable fs (target m r)" by simp
      moreover from e fc
      have "handler m ?r contents (entity ?old) = feeds m fs object (ds @ [?r])"
        by (simp add: feeds_snoc)
      ultimately show "\<exists>done. mset done + mset ?rest = mset reads
                    \<and> (\<forall>r\<in>set done. readable fs (target m r))
                    \<and> handler m ?r contents (entity ?old) = feeds m fs object done"
        by blast
    qed
    have "consistent m fs ks (s\<lparr>pending := (pending s)[j := ?new]\<rparr>)"
      using ok
    proof (rule consistent_update)
      fix this
      assume "this \<in> set (pending (s\<lparr>pending := (pending s)[j := ?new]\<rparr>))"
        and "this \<notin> set (pending s)"
      then have new: "this = ?new"
        using set_update_subset_insert [of "pending s" j ?new] by auto
      from new n called sub' fed'
      show "call_index this < length ks
           \<and> (\<exists>reads object.
                 called m (ks ! call_index this) = Inr (reads, object)
                 \<and> set (outstanding this) \<subseteq> set reads
                 \<and> (\<not> failed this \<longrightarrow>
                      (\<exists>done. mset done + mset (outstanding this) = mset reads
                          \<and> (\<forall>r\<in>set done. readable fs (target m r))
                          \<and> entity this = feeds m fs object done)))"
        by simp
    qed simp_all
    with Inr show ?thesis by simp
  qed
qed

lemma consistent_settle:
  assumes ok: "consistent m fs ks s"
    and j: "j < length (pending s)"
    and none: "outstanding (pending s ! j) = []"
  shows "consistent m fs ks
           (if failed (pending s ! j) then s\<lparr>pending := drop_nth j (pending s)\<rparr>
            else s\<lparr>pending := drop_nth j (pending s),
                   results := (results s)[call_index (pending s ! j) := Some (entity (pending s ! j))]\<rparr>)"
proof -
  let ?old = "pending s ! j"
  from j have "?old \<in> set (pending s)" by simp
  from consistent_pending [OF ok this]
  obtain reads object where n: "call_index ?old < length ks"
    and called: "called m (ks ! call_index ?old) = Inr (reads, object)"
    and fed: "\<not> failed ?old \<longrightarrow>
                (\<exists>done. mset done + mset (outstanding ?old) = mset reads
                    \<and> (\<forall>r\<in>set done. readable fs (target m r))
                    \<and> entity ?old = feeds m fs object done)"
    by blast
  have dropped: "consistent m fs ks (s\<lparr>pending := drop_nth j (pending s)\<rparr>)"
    using ok by (rule consistent_update) (use set_drop_nth [of j "pending s"] in auto)
  show ?thesis
  proof (cases "failed ?old")
    case True
    with dropped show ?thesis by simp
  next
    case False
    with fed none obtain ds where d: "mset ds = mset reads"
      and rds: "\<forall>r\<in>set ds. readable fs (target m r)"
      and e: "entity ?old = feeds m fs object ds"
      by auto
    let ?s = "s\<lparr>pending := drop_nth j (pending s)\<rparr>"
    let ?s' = "?s\<lparr>results := (results s)[call_index ?old := Some (entity ?old)]\<rparr>"
    have "consistent m fs ks ?s'"
    proof (rule consistentI)
      show "length (results ?s') = length ks"
        using consistent_positions [OF ok] by simp
    next
      fix w
      assume "w \<in> set (waiting ?s')"
      then have "w \<in> set (waiting s)" by simp
      then show "fst w < length ks \<and> snd w = ks ! fst w" by (rule consistent_waiting [OF ok])
    next
      fix this
      assume "this \<in> set (pending ?s')"
      then have "this \<in> set (pending ?s)" by simp
      then show "call_index this < length ks
           \<and> (\<exists>reads object.
                 called m (ks ! call_index this) = Inr (reads, object)
                 \<and> set (outstanding this) \<subseteq> set reads
                 \<and> (\<not> failed this \<longrightarrow>
                      (\<exists>done. mset done + mset (outstanding this) = mset reads
                          \<and> (\<forall>r\<in>set done. readable fs (target m r))
                          \<and> entity this = feeds m fs object done)))"
        by (rule consistent_pending [OF dropped])
    next
      fix i e'
      assume i: "i < length ks" and res: "results ?s' ! i = Some e'"
      show "\<exists>reads object done.
               called m (ks ! i) = Inr (reads, object)
               \<and> mset done = mset reads
               \<and> (\<forall>r\<in>set done. readable fs (target m r))
               \<and> e' = feeds m fs object done"
      proof (cases "i = call_index ?old")
        case True
        with res n consistent_positions [OF ok] have "e' = entity ?old" by simp
        with True called d rds e show ?thesis by blast
      next
        case False
        with res have "results s ! i = Some e'" by simp
        with i show ?thesis by (rule consistent_results [OF ok])
      qed
    next
      fix e'
      assume "rejection ?s' = Some e'"
      then have "rejection s = Some e'" by simp
      then show "\<exists>k\<in>set ks.
               called m k = Inl e'
               \<or> (\<exists>reads object r. called m k = Inr (reads, object) \<and> r \<in> set reads
                      \<and> readFile fs (target m r) = Inl e')"
        by (rule consistent_rejection [OF ok])
    qed
    with False show ?thesis by simp
  qed
qed

lemma consistent_step:
  assumes ok: "consistent m fs ks s"
    and step: "step n m fs ev s = Some s'"
  shows "consistent m fs ks s'"
proof (cases ev)
  case (Invoke i)
  with step have i: "i < length (waiting s)"
    by (simp add: step_def split: if_splits)
  from consistent_invoke [OF ok i] step Invoke i show ?thesis
    by (auto simp: step_def Let_def split: if_splits sum.splits prod.splits)
next
  case (Complete j k)
  with step have j: "j < length (pending s)" and k: "k < length (outstanding (pending s ! j))"
    by (simp_all add: step_def split: if_splits)
  from consistent_complete [OF ok j k] step Complete j k show ?thesis
    by (auto simp: step_def Let_def split: if_splits sum.splits)
next
  case (Settle j)
  with step have j: "j < length (pending s)" and none: "outstanding (pending s ! j) = []"
    by (simp_all add: step_def split: if_splits)
  from consistent_settle [OF ok j none] step Settle j none show ?thesis
    by (auto simp: step_def Let_def split: if_splits)
qed

lemma consistent_run:
  assumes "consistent m fs ks s" and "run n m fs evs s = Some s'"
  shows "consistent m fs ks s'"
  using assms
proof (induction evs arbitrary: s)
  case Nil
  then show ?case by simp
next
  case (Cons ev evs)
  from Cons.prems(2) obtain mid where mid: "step n m fs ev s = Some mid"
    and rest: "run n m fs evs mid = Some s'"
    by (auto split: option.splits)
  from Cons.prems(1) mid have "consistent m fs ks mid" by (rule consistent_step)
  then show ?case using rest by (rule Cons.IH)
qed

section \<open>The reads in flight in a run\<close>

lemma step_bounded:
  assumes bound: "\<forall>k\<in>set ks. \<forall>reads object. called m k = Inr (reads, object)
                    \<longrightarrow> length reads \<le> b"
    and keys: "\<forall>w\<in>set (waiting s). snd w \<in> set ks"
    and calls: "length (pending s) \<le> n"
    and reads: "\<forall>this\<in>set (pending s). length (outstanding this) \<le> b"
    and step: "step n m fs ev s = Some s'"
  shows "(\<forall>w\<in>set (waiting s'). snd w \<in> set ks)
         \<and> length (pending s') \<le> n
         \<and> (\<forall>this\<in>set (pending s'). length (outstanding this) \<le> b)"
proof (cases ev)
  case (Invoke i)
  with step have i: "i < length (waiting s)" and room: "length (pending s) < n"
    by (simp_all add: step_def split: if_splits)
  from i have "waiting s ! i \<in> set (waiting s)" by simp
  with keys have kin: "snd (waiting s ! i) \<in> set ks" by blast
  from keys set_drop_nth [of i "waiting s"]
  have keys': "\<forall>w\<in>set (drop_nth i (waiting s)). snd w \<in> set ks" by blast
  show ?thesis
  proof (cases "called m (snd (waiting s ! i))")
    case (Inl e)
    with step Invoke i room have "s' = reject e (s\<lparr>waiting := drop_nth i (waiting s)\<rparr>)"
      by (simp add: step_def Let_def)
    with keys' calls reads show ?thesis
      by (simp add: reject_def split: option.splits)
  next
    case (Inr issued_reads)
    obtain rs object where io: "issued_reads = (rs, object)" by (cases issued_reads)
    from bound kin Inr io have "length rs \<le> b" by simp
    moreover from step Invoke i room Inr io
    have "s' = s\<lparr>waiting := drop_nth i (waiting s),
                  pending := pending s
                    @ [\<lparr>call_index = fst (waiting s ! i), outstanding = rs,
                        entity = object, failed = False\<rparr>]\<rparr>"
      by (simp add: step_def Let_def)
    ultimately show ?thesis
      using keys' room reads by auto
  qed
next
  case (Complete j k)
  with step have j: "j < length (pending s)" and k: "k < length (outstanding (pending s ! j))"
    by (simp_all add: step_def split: if_splits)
  from j reads have "length (outstanding (pending s ! j)) \<le> b" by simp
  with length_drop_nth [of k "outstanding (pending s ! j)"]
  have rest: "length (drop_nth k (outstanding (pending s ! j))) \<le> b" by simp
  have updated: "\<forall>this\<in>set ((pending s)[j := new]). length (outstanding this) \<le> b"
    if "outstanding new = drop_nth k (outstanding (pending s ! j))" for new
    using that rest reads set_update_subset_insert [of "pending s" j new] by auto
  let ?old = "pending s ! j"
  show ?thesis
  proof (cases "readFile fs (target m (outstanding ?old ! k))")
    case (Inl e)
    let ?new = "?old\<lparr>outstanding := drop_nth k (outstanding ?old), failed := True\<rparr>"
    from step Complete j k Inl
    have "s' = reject e (s\<lparr>pending := (pending s)[j := ?new]\<rparr>)"
      by (simp add: step_def Let_def)
    moreover have "\<forall>this\<in>set ((pending s)[j := ?new]). length (outstanding this) \<le> b"
      by (rule updated) simp
    ultimately show ?thesis
      using keys calls by (simp add: reject_def split: option.splits)
  next
    case (Inr contents)
    let ?new = "?old\<lparr>outstanding := drop_nth k (outstanding ?old),
                      entity := handler m (outstanding ?old ! k) contents (entity ?old)\<rparr>"
    from step Complete j k Inr
    have "s' = s\<lparr>pending := (pending s)[j := ?new]\<rparr>"
      by (simp add: step_def Let_def)
    moreover have "\<forall>this\<in>set ((pending s)[j := ?new]). length (outstanding this) \<le> b"
      by (rule updated) simp
    ultimately show ?thesis
      using keys calls by simp
  qed
next
  case (Settle j)
  with step have j: "j < length (pending s)" and none: "outstanding (pending s ! j) = []"
    by (simp_all add: step_def split: if_splits)
  from reads set_drop_nth [of j "pending s"]
  have "\<forall>this\<in>set (drop_nth j (pending s)). length (outstanding this) \<le> b" by blast
  moreover from calls length_drop_nth [of j "pending s"]
  have "length (drop_nth j (pending s)) \<le> n" by simp
  ultimately show ?thesis
    using step Settle j none keys by (auto simp: step_def Let_def split: if_splits)
qed

lemma run_bounded_from:
  assumes bound: "\<forall>k\<in>set ks. \<forall>reads object. called m k = Inr (reads, object)
                    \<longrightarrow> length reads \<le> b"
    and "\<forall>w\<in>set (waiting s). snd w \<in> set ks"
    and "length (pending s) \<le> n"
    and "\<forall>this\<in>set (pending s). length (outstanding this) \<le> b"
    and "run n m fs evs s = Some s'"
  shows "length (pending s') \<le> n \<and> (\<forall>this\<in>set (pending s'). length (outstanding this) \<le> b)"
  using assms(2-)
proof (induction evs arbitrary: s)
  case Nil
  then show ?case by simp
next
  case (Cons ev evs)
  from Cons.prems(4) obtain mid where mid: "step n m fs ev s = Some mid"
    and rest: "run n m fs evs mid = Some s'"
    by (auto split: option.splits)
  from step_bounded [OF bound Cons.prems(1-3) mid]
  have "\<forall>w\<in>set (waiting mid). snd w \<in> set ks" and "length (pending mid) \<le> n"
    and "\<forall>this\<in>set (pending mid). length (outstanding this) \<le> b"
    by simp_all
  then show ?case using rest by (rule Cons.IH)
qed

lemma sum_list_bounded:
  "\<forall>x\<in>set xs. f x \<le> (b::nat) \<Longrightarrow> sum_list (map f xs) \<le> length xs * b"
  by (induction xs) auto

lemma run_bounded:
  assumes bound: "\<forall>k\<in>set ks. \<forall>reads object. called m k = Inr (reads, object)
                    \<longrightarrow> length reads \<le> b"
    and run: "run n m fs evs (start ks) = Some s"
  shows "in_flight s \<le> n * b"
proof -
  have "length (pending s) \<le> n \<and> (\<forall>this\<in>set (pending s). length (outstanding this) \<le> b)"
    by (rule run_bounded_from [OF bound _ _ _ run]) (auto simp: start_def in_set_enumerate_eq)
  then have calls: "length (pending s) \<le> n"
    and reads: "\<forall>this\<in>set (pending s). length (outstanding this) \<le> b"
    by simp_all
  from sum_list_bounded [OF reads] have "in_flight s \<le> length (pending s) * b"
    by (simp add: in_flight_def)
  also from calls have "\<dots> \<le> n * b" by simp
  finally show ?thesis .
qed

lemma length_issued: "length (issued kind recorded) \<le> 1"
  by (simp add: issued_def split: option.splits)

lemma processRule_reads_bounded: "length (processRule_reads r) \<le> 2"
  using length_issued [of Primary "scriptFileName r"] length_issued [of Sidecar "metadataFileName r"]
  by (simp add: processRule_reads_def)

lemma processConfigurableConfig_reads_bounded: "length (processConfigurableConfig_reads f) \<le> 2"
  using length_issued [of Primary "configFileName f"]
    length_issued [of Sidecar "cfg_metadataFileName f"]
  by (simp add: processConfigurableConfig_reads_def)

lemma processPage_reads_bounded: "length (processPage_reads pg) \<le> 2"
  using length_issued [of Primary "page_fileName pg"] length_issued [of Sidecar "metaFileName pg"]
  by (simp add: processPage_reads_def)

lemma processEmailProvider_reads_bounded: "length (processEmailProvider_reads p) \<le> 1"
  using length_issued [of Primary p] by (simp add: processEmailProvider_reads_def)

lemma foldr_max_bound: "x \<in> set xs \<Longrightarrow> f x \<le> foldr (\<lambda>k. max (f k)) xs (0::nat)"
  by (induction xs) (auto simp: max_def)

lemma largest_connection_bound:
  assumes "k \<in> set (own_keys table)" and "database_entry table k = Some files"
  shows "length (database_reads files) \<le> largest_connection table"
proof -
  let ?f = "\<lambda>databaseName. case database_entry table databaseName of
                     None \<Rightarrow> 0 | Some files \<Rightarrow> length (database_reads files)"
  from foldr_max_bound [OF assms(1), of ?f] assms(2) show ?thesis
    by (simp add: largest_connection_def)
qed

section \<open>What a run that settles gives\<close>

lemma promised_resolved:
  assumes "promised s = Some (Inr es)"
  shows "rejection s = None" and "es = map the (results s)"
    and "\<forall>result\<in>set (results s). result \<noteq> None"
  using assms by (auto simp: promised_def list_all_iff split: option.splits if_splits)

lemma promised_settled:
  assumes "promised s \<noteq> None" and "rejection s = None"
  shows "promised s = Some (Inr (map the (results s)))"
  using assms by (auto simp: promised_def split: if_splits)

lemma run_resolved:
  assumes run: "run n m fs evs (start ks) = Some s"
    and resolved: "promised s = Some (Inr es)"
  shows "length es = length ks"
    and "\<forall>i<length ks. \<exists>reads object done.
           called m (ks ! i) = Inr (reads, object)
           \<and> mset done = mset reads
           \<and> (\<forall>r\<in>set reads. readable fs (target m r))
           \<and> es ! i = feeds m fs object done"
proof -
  from consistent_start run have ok: "consistent m fs ks s" by (rule consistent_run)
  from promised_resolved [OF resolved]
  have es: "es = map the (results s)" and all: "\<forall>result\<in>set (results s). result \<noteq> None"
    by simp_all
  from consistent_positions [OF ok] es show len: "length es = length ks" by simp
  show "\<forall>i<length ks. \<exists>reads object done.
           called m (ks ! i) = Inr (reads, object)
           \<and> mset done = mset reads
           \<and> (\<forall>r\<in>set reads. readable fs (target m r))
           \<and> es ! i = feeds m fs object done"
  proof (intro allI impI)
    fix i
    assume i: "i < length ks"
    with consistent_positions [OF ok] have "results s ! i \<in> set (results s)" by simp
    with all obtain e where e: "results s ! i = Some e" by blast
    from consistent_results [OF ok i e]
    obtain reads object ds where called: "called m (ks ! i) = Inr (reads, object)"
      and perm: "mset ds = mset reads"
      and rd: "\<forall>r\<in>set ds. readable fs (target m r)"
      and fed: "e = feeds m fs object ds"
      by blast
    from perm have "set ds = set reads" by (rule mset_eq_setD)
    with rd have "\<forall>r\<in>set reads. readable fs (target m r)" by simp
    moreover from es e i consistent_positions [OF ok] have "es ! i = e" by simp
    ultimately show "\<exists>reads object done.
           called m (ks ! i) = Inr (reads, object)
           \<and> mset done = mset reads
           \<and> (\<forall>r\<in>set reads. readable fs (target m r))
           \<and> es ! i = feeds m fs object done"
      using called perm fed by blast
  qed
qed

lemma run_not_rejected:
  assumes run: "run n m fs evs (start ks) = Some s"
    and fine: "\<forall>k\<in>set ks. \<exists>reads object. called m k = Inr (reads, object)
                 \<and> (\<forall>r\<in>set reads. readable fs (target m r))"
  shows "rejection s = None"
proof (rule ccontr)
  assume "rejection s \<noteq> None"
  then obtain e where e: "rejection s = Some e" by blast
  from consistent_start run have ok: "consistent m fs ks s" by (rule consistent_run)
  from consistent_rejection [OF ok e]
  obtain k where k: "k \<in> set ks"
    and cause: "called m k = Inl e
                \<or> (\<exists>reads object r. called m k = Inr (reads, object) \<and> r \<in> set reads
                      \<and> readFile fs (target m r) = Inl e)"
    by blast
  from fine k obtain reads object where called: "called m k = Inr (reads, object)"
    and rd: "\<forall>r\<in>set reads. readable fs (target m r)"
    by blast
  from cause called obtain r where "r \<in> set reads" and "readFile fs (target m r) = Inl e"
    by auto
  with rd show False by (auto simp: readable_def)
qed

lemma resolved_keys:
  assumes run: "run n m fs evs (start ks) = Some s"
    and resolved: "promised s = Some (Inr es)"
  shows "\<forall>k\<in>set ks. \<exists>reads object. called m k = Inr (reads, object)
           \<and> (\<forall>r\<in>set reads. readable fs (target m r))"
proof
  fix k
  assume "k \<in> set ks"
  then obtain i where i: "i < length ks" and k: "ks ! i = k" by (auto simp: in_set_conv_nth)
  from run_resolved(2) [OF run resolved] i k
  show "\<exists>reads object. called m k = Inr (reads, object)
           \<and> (\<forall>r\<in>set reads. readable fs (target m r))"
    by blast
qed

text \<open>
  When the object of an entity does not depend on the order in which its reads complete,
  a run that resolves gives, for every key, the object after the reads in the order issued.
\<close>

lemma run_resolved_in_order:
  assumes run: "run n m fs evs (start ks) = Some s"
    and resolved: "promised s = Some (Inr es)"
    and any_order: "\<forall>k\<in>set ks. \<forall>reads object ds. called m k = Inr (reads, object)
                      \<longrightarrow> mset ds = mset reads
                      \<longrightarrow> feeds m fs object ds = feeds m fs object reads"
  shows "es = map (\<lambda>k. feeds m fs (snd (projr (called m k))) (fst (projr (called m k)))) ks"
proof (rule nth_equalityI)
  from run_resolved(1) [OF run resolved]
  show "length es
        = length (map (\<lambda>k. feeds m fs (snd (projr (called m k))) (fst (projr (called m k)))) ks)"
    by simp
next
  fix i
  assume "i < length es"
  with run_resolved(1) [OF run resolved] have i: "i < length ks" by simp
  with run_resolved(2) [OF run resolved]
  obtain reads object ds where called: "called m (ks ! i) = Inr (reads, object)"
    and perm: "mset ds = mset reads"
    and fed: "es ! i = feeds m fs object ds"
    by blast
  from i have "ks ! i \<in> set ks" by simp
  with any_order called perm have "feeds m fs object ds = feeds m fs object reads" by blast
  with fed called i
  show "es ! i = map (\<lambda>k. feeds m fs (snd (projr (called m k))) (fst (projr (called m k)))) ks ! i"
    by simp
qed

lemma runs_agree:
  assumes first: "run n m fs evs (start ks) = Some s" "promised s = Some (Inr es)"
    and second: "run n' m fs evs' (start ks) = Some s'" "promised s' \<noteq> None"
    and any_order: "\<forall>k\<in>set ks. \<forall>reads object ds. called m k = Inr (reads, object)
                      \<longrightarrow> mset ds = mset reads
                      \<longrightarrow> feeds m fs object ds = feeds m fs object reads"
  shows "promised s' = Some (Inr es)"
proof -
  from resolved_keys [OF first] have "rejection s' = None"
    by (rule run_not_rejected [OF second(1)])
  with second(2) have resolved: "promised s' = Some (Inr (map the (results s')))"
    by (rule promised_settled)
  from run_resolved_in_order [OF first any_order]
    run_resolved_in_order [OF second(1) resolved any_order]
  have "map the (results s') = es" by simp
  with resolved show ?thesis by simp
qed

lemma promise_map_map:
  "\<forall>k\<in>set ks. mapper k = Inr (g k) \<Longrightarrow> promise_map mapper ks = Inr (map g ks)"
  by (induction ks) simp_all

lemma mset_single: "mset ds = mset [x] \<Longrightarrow> ds = [x]"
  by simp

lemma mset_pair: "mset ds = mset [x, y] \<Longrightarrow> ds = [x, y] \<or> ds = [y, x]"
proof -
  assume perm: "mset ds = mset [x, y]"
  then have "length ds = 2" by (metis length_Cons list.size(3) mset_eq_length numeral_2_eq_2)
  then obtain a b where ds: "ds = [a, b]"
    by (metis (no_types) length_0_conv length_Suc_conv numeral_2_eq_2)
  with perm have "{#a, b#} = {#x, y#}" by simp
  then have "a = x \<and> b = y \<or> a = y \<and> b = x"
    by (auto simp: add_eq_conv_ex)
  with ds show ?thesis by auto
qed

section \<open>The runs of the collectors of one directory\<close>

lemma collector_promise_map:
  assumes run: "run n m fs evs (start ks) = Some s"
    and resolved: "promised s = Some (Inr es)"
    and any_order: "\<forall>k\<in>set ks. \<forall>reads object ds. called m k = Inr (reads, object)
                      \<longrightarrow> mset ds = mset reads
                      \<longrightarrow> feeds m fs object ds = feeds m fs object reads"
    and link: "\<forall>k\<in>set ks. \<forall>reads object. called m k = Inr (reads, object)
                 \<longrightarrow> (\<forall>r\<in>set reads. readable fs (target m r))
                 \<longrightarrow> mapper k = Inr (feeds m fs object reads)"
  shows "promise_map mapper ks = Inr es"
proof -
  let ?g = "\<lambda>k. feeds m fs (snd (projr (called m k))) (fst (projr (called m k)))"
  from run_resolved_in_order [OF run resolved any_order] have es: "es = map ?g ks" .
  have "\<forall>k\<in>set ks. mapper k = Inr (?g k)"
  proof
    fix k
    assume k: "k \<in> set ks"
    with resolved_keys [OF run resolved]
    obtain reads object where called: "called m k = Inr (reads, object)"
      and rd: "\<forall>r\<in>set reads. readable fs (target m r)"
      by blast
    with link k have "mapper k = Inr (feeds m fs object reads)" by blast
    with called show "mapper k = Inr (?g k)" by simp
  qed
  then have "promise_map mapper ks = Inr (map ?g ks)" by (rule promise_map_map)
  with es show ?thesis by simp
qed

lemma outcome_resolved:
  "outcome after_events = Some (Inr es) \<Longrightarrow> \<exists>s. after_events = Some s \<and> promised s = Some (Inr es)"
  by (cases after_events) (simp_all add: outcome_def)

lemma outcome_settled:
  "outcome after_events \<noteq> None \<Longrightarrow> \<exists>s. after_events = Some s \<and> promised s \<noteq> None"
  by (cases after_events) (simp_all add: outcome_def)

lemma two_reads_any_order:
  assumes "mset ds = mset (issued Primary a @ issued Sidecar b)"
  shows "ds = issued Primary a @ issued Sidecar b
         \<or> (\<exists>p q. a = Some p \<and> b = Some q \<and> ds = [Sidecar q, Primary p])"
proof (cases a)
  case None
  with assms show ?thesis by (cases b) (simp_all add: issued_def)
next
  case (Some p)
  show ?thesis
  proof (cases b)
    case None
    with Some assms show ?thesis by (simp add: issued_def)
  next
    case (Some q)
    with \<open>a = Some p\<close> assms have "mset ds = mset [Primary p, Sidecar q]"
      by (simp add: issued_def)
    then have "ds = [Primary p, Sidecar q] \<or> ds = [Sidecar q, Primary p]" by (rule mset_pair)
    with Some \<open>a = Some p\<close> show ?thesis by (auto simp: issued_def)
  qed
qed

lemma readable_file:
  "readable fs p \<Longrightarrow> readFile fs p = Inr (file_contents fs p)"
  by (simp add: readable_def file_contents_def split: sum.splits)

lemma rules_any_order:
  assumes "mset ds = mset (processRule_reads files)"
  shows "feeds (rules_mapping table) fs object ds
         = feeds (rules_mapping table) fs object (processRule_reads files)"
  using two_reads_any_order [OF assms [unfolded processRule_reads_def]]
  by (auto simp: processRule_reads_def issued_def feeds_def rules_mapping_def)

lemma processRule_feeds:
  assumes "\<forall>r\<in>set (processRule_reads files). readable fs (file_read_path r)"
  shows "processRule fs ruleName files
         = Inr (feeds (rules_mapping table) fs (currentRule ruleName) (processRule_reads files))"
  using assms
  by (cases "scriptFileName files"; cases "metadataFileName files")
    (simp_all add: processRule_def processRule_reads_def issued_def read_optional_def feeds_def
      rules_mapping_def currentRule_def readable_file)

lemma configurables_any_order:
  assumes "mset ds = mset (processConfigurableConfig_reads files)"
  shows "feeds (configurables_mapping table) fs object ds
         = feeds (configurables_mapping table) fs object (processConfigurableConfig_reads files)"
  using two_reads_any_order [OF assms [unfolded processConfigurableConfig_reads_def]]
  by (auto simp: processConfigurableConfig_reads_def issued_def feeds_def configurables_mapping_def)

lemma processConfigurableConfig_feeds:
  assumes "\<forall>r\<in>set (processConfigurableConfig_reads files). readable fs (file_read_path r)"
  shows "processConfigurableConfig fs configurableName files
         = Inr (feeds (configurables_mapping table) fs (new_configurable configurableName)
                  (processConfigurableConfig_reads files))"
  using assms
  by (cases "configFileName files"; cases "cfg_metadataFileName files")
    (simp_all add: processConfigurableConfig_def processConfigurableConfig_reads_def issued_def
      read_optional_def feeds_def configurables_mapping_def new_configurable_def readable_file)

lemma pages_any_order:
  assumes "mset ds = mset (processPage_reads files)"
  shows "feeds (pages_mapping table) fs object ds
         = feeds (pages_mapping table) fs object (processPage_reads files)"
  using two_reads_any_order [OF assms [unfolded processPage_reads_def]]
  by (auto simp: processPage_reads_def issued_def feeds_def pages_mapping_def)

lemma processPage_feeds:
  assumes "\<forall>r\<in>set (processPage_reads files). readable fs (file_read_path r)"
  shows "processPage fs pageName files
         = Inr (feeds (pages_mapping table) fs (currentPage pageName) (processPage_reads files))"
  using assms
  by (cases "page_fileName files"; cases "metaFileName files")
    (simp_all add: processPage_def processPage_reads_def issued_def read_optional_def feeds_def
      pages_mapping_def currentPage_def readable_file)

lemma providers_any_order:
  assumes "mset ds = mset (processEmailProvider_reads recorded)"
  shows "feeds (providers_mapping table) fs object ds
         = feeds (providers_mapping table) fs object (processEmailProvider_reads recorded)"
  using assms
  by (cases recorded) (simp_all add: processEmailProvider_reads_def issued_def)

lemma processEmailProvider_feeds:
  assumes "\<forall>r\<in>set (processEmailProvider_reads recorded). readable fs (file_read_path r)"
  shows "processEmailProvider fs providerName recorded
         = Inr (feeds (providers_mapping table) fs (currentProvider providerName)
                  (processEmailProvider_reads recorded))"
  using assms
  by (cases recorded)
    (simp_all add: processEmailProvider_def processEmailProvider_reads_def issued_def
      read_optional_def feeds_def providers_mapping_def currentProvider_def readable_file)

lemma rules_called:
  "called (rules_mapping table) k = Inr (processRule_reads (rule_entry table k), currentRule k)"
  and rules_target: "target (rules_mapping table) = file_read_path"
  by (simp_all add: rules_mapping_def)

lemma rules_agree:
  assumes run: "run n (rules_mapping table) fs evs (start ks) = Some s"
    and resolved: "promised s = Some (Inr es)"
  shows "promise_map (\<lambda>k. processRule fs k (rule_entry table k)) ks = Inr es"
    and "run n' (rules_mapping table) fs evs' (start ks) = Some s' \<Longrightarrow> promised s' \<noteq> None
         \<Longrightarrow> promised s' = Some (Inr es)"
proof -
  let ?m = "rules_mapping table"
  have any_order: "\<forall>k\<in>set ks. \<forall>reads object ds.
           called ?m k = Inr (reads, object)
           \<longrightarrow> mset ds = mset reads
           \<longrightarrow> feeds ?m fs object ds = feeds ?m fs object reads"
  proof (intro ballI allI impI)
    fix k reads object ds
    assume "called ?m k = Inr (reads, object)" and perm: "mset ds = mset reads"
    then have "reads = processRule_reads (rule_entry table k)" by (simp add: rules_called)
    with perm show "feeds ?m fs object ds = feeds ?m fs object reads"
      by (simp only: rules_any_order [of ds])
  qed
  have link: "\<forall>k\<in>set ks. \<forall>reads object.
           called ?m k = Inr (reads, object)
           \<longrightarrow> (\<forall>r\<in>set reads. readable fs (target ?m r))
           \<longrightarrow> processRule fs k (rule_entry table k) = Inr (feeds ?m fs object reads)"
  proof (intro ballI allI impI)
    fix k reads object
    assume called: "called ?m k = Inr (reads, object)"
      and rd: "\<forall>r\<in>set reads. readable fs (target ?m r)"
    from called have reads: "reads = processRule_reads (rule_entry table k)" and object: "object = currentRule k"
      by (simp_all add: rules_called)
    from rd have "\<forall>r\<in>set (processRule_reads (rule_entry table k)). readable fs (file_read_path r)"
      by (simp only: reads rules_target)
    then have "processRule fs k (rule_entry table k)
               = Inr (feeds ?m fs (currentRule k) (processRule_reads (rule_entry table k)))"
      by (rule processRule_feeds)
    then show "processRule fs k (rule_entry table k) = Inr (feeds ?m fs object reads)"
      by (simp only: reads object)
  qed
  from run resolved any_order link
  show "promise_map (\<lambda>k. processRule fs k (rule_entry table k)) ks = Inr es"
    by (rule collector_promise_map)
  assume "run n' ?m fs evs' (start ks) = Some s'" and "promised s' \<noteq> None"
  with run resolved show "promised s' = Some (Inr es)"
    using any_order by (rule runs_agree)
qed

lemma configurables_called:
  "called (configurables_mapping table) k = Inr (processConfigurableConfig_reads (configurable_entry table k), new_configurable k)"
  and configurables_target: "target (configurables_mapping table) = file_read_path"
  by (simp_all add: configurables_mapping_def)

lemma configurables_agree:
  assumes run: "run n (configurables_mapping table) fs evs (start ks) = Some s"
    and resolved: "promised s = Some (Inr es)"
  shows "promise_map (\<lambda>k. processConfigurableConfig fs k (configurable_entry table k)) ks = Inr es"
    and "run n' (configurables_mapping table) fs evs' (start ks) = Some s' \<Longrightarrow> promised s' \<noteq> None
         \<Longrightarrow> promised s' = Some (Inr es)"
proof -
  let ?m = "configurables_mapping table"
  have any_order: "\<forall>k\<in>set ks. \<forall>reads object ds.
           called ?m k = Inr (reads, object)
           \<longrightarrow> mset ds = mset reads
           \<longrightarrow> feeds ?m fs object ds = feeds ?m fs object reads"
  proof (intro ballI allI impI)
    fix k reads object ds
    assume "called ?m k = Inr (reads, object)" and perm: "mset ds = mset reads"
    then have "reads = processConfigurableConfig_reads (configurable_entry table k)" by (simp add: configurables_called)
    with perm show "feeds ?m fs object ds = feeds ?m fs object reads"
      by (simp only: configurables_any_order [of ds])
  qed
  have link: "\<forall>k\<in>set ks. \<forall>reads object.
           called ?m k = Inr (reads, object)
           \<longrightarrow> (\<forall>r\<in>set reads. readable fs (target ?m r))
           \<longrightarrow> processConfigurableConfig fs k (configurable_entry table k) = Inr (feeds ?m fs object reads)"
  proof (intro ballI allI impI)
    fix k reads object
    assume called: "called ?m k = Inr (reads, object)"
      and rd: "\<forall>r\<in>set reads. readable fs (target ?m r)"
    from called have reads: "reads = processConfigurableConfig_reads (configurable_entry table k)" and object: "object = new_configurable k"
      by (simp_all add: configurables_called)
    from rd have "\<forall>r\<in>set (processConfigurableConfig_reads (configurable_entry table k)). readable fs (file_read_path r)"
      by (simp only: reads configurables_target)
    then have "processConfigurableConfig fs k (configurable_entry table k)
               = Inr (feeds ?m fs (new_configurable k) (processConfigurableConfig_reads (configurable_entry table k)))"
      by (rule processConfigurableConfig_feeds)
    then show "processConfigurableConfig fs k (configurable_entry table k) = Inr (feeds ?m fs object reads)"
      by (simp only: reads object)
  qed
  from run resolved any_order link
  show "promise_map (\<lambda>k. processConfigurableConfig fs k (configurable_entry table k)) ks = Inr es"
    by (rule collector_promise_map)
  assume "run n' ?m fs evs' (start ks) = Some s'" and "promised s' \<noteq> None"
  with run resolved show "promised s' = Some (Inr es)"
    using any_order by (rule runs_agree)
qed

lemma pages_called:
  "called (pages_mapping table) k = Inr (processPage_reads (page_entry table k), currentPage k)"
  and pages_target: "target (pages_mapping table) = file_read_path"
  by (simp_all add: pages_mapping_def)

lemma pages_agree:
  assumes run: "run n (pages_mapping table) fs evs (start ks) = Some s"
    and resolved: "promised s = Some (Inr es)"
  shows "promise_map (\<lambda>k. processPage fs k (page_entry table k)) ks = Inr es"
    and "run n' (pages_mapping table) fs evs' (start ks) = Some s' \<Longrightarrow> promised s' \<noteq> None
         \<Longrightarrow> promised s' = Some (Inr es)"
proof -
  let ?m = "pages_mapping table"
  have any_order: "\<forall>k\<in>set ks. \<forall>reads object ds.
           called ?m k = Inr (reads, object)
           \<longrightarrow> mset ds = mset reads
           \<longrightarrow> feeds ?m fs object ds = feeds ?m fs object reads"
  proof (intro ballI allI impI)
    fix k reads object ds
    assume "called ?m k = Inr (reads, object)" and perm: "mset ds = mset reads"
    then have "reads = processPage_reads (page_entry table k)" by (simp add: pages_called)
    with perm show "feeds ?m fs object ds = feeds ?m fs object reads"
      by (simp only: pages_any_order [of ds])
  qed
  have link: "\<forall>k\<in>set ks. \<forall>reads object.
           called ?m k = Inr (reads, object)
           \<longrightarrow> (\<forall>r\<in>set reads. readable fs (target ?m r))
           \<longrightarrow> processPage fs k (page_entry table k) = Inr (feeds ?m fs object reads)"
  proof (intro ballI allI impI)
    fix k reads object
    assume called: "called ?m k = Inr (reads, object)"
      and rd: "\<forall>r\<in>set reads. readable fs (target ?m r)"
    from called have reads: "reads = processPage_reads (page_entry table k)" and object: "object = currentPage k"
      by (simp_all add: pages_called)
    from rd have "\<forall>r\<in>set (processPage_reads (page_entry table k)). readable fs (file_read_path r)"
      by (simp only: reads pages_target)
    then have "processPage fs k (page_entry table k)
               = Inr (feeds ?m fs (currentPage k) (processPage_reads (page_entry table k)))"
      by (rule processPage_feeds)
    then show "processPage fs k (page_entry table k) = Inr (feeds ?m fs object reads)"
      by (simp only: reads object)
  qed
  from run resolved any_order link
  show "promise_map (\<lambda>k. processPage fs k (page_entry table k)) ks = Inr es"
    by (rule collector_promise_map)
  assume "run n' ?m fs evs' (start ks) = Some s'" and "promised s' \<noteq> None"
  with run resolved show "promised s' = Some (Inr es)"
    using any_order by (rule runs_agree)
qed

lemma providers_called:
  "called (providers_mapping table) k = Inr (processEmailProvider_reads (provider_entry table k), currentProvider k)"
  and providers_target: "target (providers_mapping table) = file_read_path"
  by (simp_all add: providers_mapping_def)

lemma providers_agree:
  assumes run: "run n (providers_mapping table) fs evs (start ks) = Some s"
    and resolved: "promised s = Some (Inr es)"
  shows "promise_map (\<lambda>k. processEmailProvider fs k (provider_entry table k)) ks = Inr es"
    and "run n' (providers_mapping table) fs evs' (start ks) = Some s' \<Longrightarrow> promised s' \<noteq> None
         \<Longrightarrow> promised s' = Some (Inr es)"
proof -
  let ?m = "providers_mapping table"
  have any_order: "\<forall>k\<in>set ks. \<forall>reads object ds.
           called ?m k = Inr (reads, object)
           \<longrightarrow> mset ds = mset reads
           \<longrightarrow> feeds ?m fs object ds = feeds ?m fs object reads"
  proof (intro ballI allI impI)
    fix k reads object ds
    assume "called ?m k = Inr (reads, object)" and perm: "mset ds = mset reads"
    then have "reads = processEmailProvider_reads (provider_entry table k)" by (simp add: providers_called)
    with perm show "feeds ?m fs object ds = feeds ?m fs object reads"
      by (simp only: providers_any_order [of ds])
  qed
  have link: "\<forall>k\<in>set ks. \<forall>reads object.
           called ?m k = Inr (reads, object)
           \<longrightarrow> (\<forall>r\<in>set reads. readable fs (target ?m r))
           \<longrightarrow> processEmailProvider fs k (provider_entry table k) = Inr (feeds ?m fs object reads)"
  proof (intro ballI allI impI)
    fix k reads object
    assume called: "called ?m k = Inr (reads, object)"
      and rd: "\<forall>r\<in>set reads. readable fs (target ?m r)"
    from called have reads: "reads = processEmailProvider_reads (provider_entry table k)" and object: "object = currentProvider k"
      by (simp_all add: providers_called)
    from rd have "\<forall>r\<in>set (processEmailProvider_reads (provider_entry table k)). readable fs (file_read_path r)"
      by (simp only: reads providers_target)
    then have "processEmailProvider fs k (provider_entry table k)
               = Inr (feeds ?m fs (currentProvider k) (processEmailProvider_reads (provider_entry table k)))"
      by (rule processEmailProvider_feeds)
    then show "processEmailProvider fs k (provider_entry table k) = Inr (feeds ?m fs object reads)"
      by (simp only: reads object)
  qed
  from run resolved any_order link
  show "promise_map (\<lambda>k. processEmailProvider fs k (provider_entry table k)) ks = Inr es"
    by (rule collector_promise_map)
  assume "run n' ?m fs evs' (start ks) = Some s'" and "promised s' \<noteq> None"
  with run resolved show "promised s' = Some (Inr es)"
    using any_order by (rule runs_agree)
qed


lemma getRules_runs:
  assumes first: "outcome (getRules_map fs dirPath evs) = Some (Inr es)"
  shows "getRules fs dirPath = Inr (Some es)"
    and "outcome (getRules_map fs dirPath evs') \<noteq> None
         \<Longrightarrow> outcome (getRules_map fs dirPath evs') = Some (Inr es)"
proof -
  from outcome_resolved [OF first] obtain s where reached: "getRules_map fs dirPath evs = Some s"
    and resolved: "promised s = Some (Inr es)"
    by blast
  from reached obtain files where listing: "readdir fs dirPath = Inr files"
    by (cases "readdir fs dirPath") (simp_all add: getRules_map_def)
  let ?table = "foldl (add_rule_file dirPath) [] files"
  from reached listing
  have run: "run 2 (rules_mapping ?table) fs evs (start (own_keys ?table)) = Some s"
    by (simp add: getRules_map_def Let_def)
  from rules_agree(1) [OF run resolved] listing
  show "getRules fs dirPath = Inr (Some es)"
    by (simp add: getRules_def Let_def)
  assume "outcome (getRules_map fs dirPath evs') \<noteq> None"
  from outcome_settled [OF this] obtain s' where reached': "getRules_map fs dirPath evs' = Some s'"
    and settled: "promised s' \<noteq> None"
    by blast
  from reached' listing
  have run': "run 2 (rules_mapping ?table) fs evs' (start (own_keys ?table)) = Some s'"
    by (simp add: getRules_map_def Let_def)
  from rules_agree(2) [OF run resolved run' settled] reached'
  show "outcome (getRules_map fs dirPath evs') = Some (Inr es)"
    by (simp add: outcome_def)
qed

lemma getConfigurableConfigs_runs:
  assumes first: "outcome (getConfigurableConfigs_map fs dirPath evs) = Some (Inr es)"
  shows "getConfigurableConfigs fs dirPath type = Inr (Some es)"
    and "outcome (getConfigurableConfigs_map fs dirPath evs') \<noteq> None
         \<Longrightarrow> outcome (getConfigurableConfigs_map fs dirPath evs') = Some (Inr es)"
proof -
  from outcome_resolved [OF first] obtain s where reached: "getConfigurableConfigs_map fs dirPath evs = Some s"
    and resolved: "promised s = Some (Inr es)"
    by blast
  from reached obtain files where listing: "readdir fs dirPath = Inr files"
    by (cases "readdir fs dirPath") (simp_all add: getConfigurableConfigs_map_def)
  let ?table = "foldl (add_configurable_file dirPath) [] files"
  from reached listing
  have run: "run 2 (configurables_mapping ?table) fs evs (start (own_keys ?table)) = Some s"
    by (simp add: getConfigurableConfigs_map_def Let_def)
  from configurables_agree(1) [OF run resolved] listing
  show "getConfigurableConfigs fs dirPath type = Inr (Some es)"
    by (simp add: getConfigurableConfigs_def Let_def)
  assume "outcome (getConfigurableConfigs_map fs dirPath evs') \<noteq> None"
  from outcome_settled [OF this] obtain s' where reached': "getConfigurableConfigs_map fs dirPath evs' = Some s'"
    and settled: "promised s' \<noteq> None"
    by blast
  from reached' listing
  have run': "run 2 (configurables_mapping ?table) fs evs' (start (own_keys ?table)) = Some s'"
    by (simp add: getConfigurableConfigs_map_def Let_def)
  from configurables_agree(2) [OF run resolved run' settled] reached'
  show "outcome (getConfigurableConfigs_map fs dirPath evs') = Some (Inr es)"
    by (simp add: outcome_def)
qed

lemma getPages_runs:
  assumes first: "outcome (getPages_map c fs dirPath evs) = Some (Inr es)"
  shows "getPages c fs dirPath = Inr (Some es)"
    and "outcome (getPages_map c fs dirPath evs') \<noteq> None
         \<Longrightarrow> outcome (getPages_map c fs dirPath evs') = Some (Inr es)"
proof -
  from outcome_resolved [OF first] obtain s where reached: "getPages_map c fs dirPath evs = Some s"
    and resolved: "promised s = Some (Inr es)"
    by blast
  from reached obtain files where listing: "readdir fs dirPath = Inr files"
    by (cases "readdir fs dirPath") (simp_all add: getPages_map_def)
  let ?table = "foldl (add_page_file (isPage c) dirPath) [] files"
  from reached listing
  have run: "run 2 (pages_mapping ?table) fs evs (start (own_keys ?table)) = Some s"
    by (simp add: getPages_map_def Let_def)
  from pages_agree(1) [OF run resolved] listing
  show "getPages c fs dirPath = Inr (Some es)"
    by (simp add: getPages_def Let_def)
  assume "outcome (getPages_map c fs dirPath evs') \<noteq> None"
  from outcome_settled [OF this] obtain s' where reached': "getPages_map c fs dirPath evs' = Some s'"
    and settled: "promised s' \<noteq> None"
    by blast
  from reached' listing
  have run': "run 2 (pages_mapping ?table) fs evs' (start (own_keys ?table)) = Some s'"
    by (simp add: getPages_map_def Let_def)
  from pages_agree(2) [OF run resolved run' settled] reached'
  show "outcome (getPages_map c fs dirPath evs') = Some (Inr es)"
    by (simp add: outcome_def)
qed

lemma getEmailTemplates_runs:
  assumes first: "outcome (getEmailTemplates_map c fs dirPath evs) = Some (Inr es)"
  shows "getEmailTemplates c fs dirPath = Inr (Some es)"
    and "outcome (getEmailTemplates_map c fs dirPath evs') \<noteq> None
         \<Longrightarrow> outcome (getEmailTemplates_map c fs dirPath evs') = Some (Inr es)"
proof -
  from outcome_resolved [OF first] obtain s where reached: "getEmailTemplates_map c fs dirPath evs = Some s"
    and resolved: "promised s = Some (Inr es)"
    by blast
  from reached obtain files where listing: "readdir fs dirPath = Inr files"
    by (cases "readdir fs dirPath") (simp_all add: getEmailTemplates_map_def)
  let ?table = "foldl (add_page_file (isEmailTemplate c) dirPath) [] files"
  from reached listing
  have run: "run 2 (pages_mapping ?table) fs evs (start (own_keys ?table)) = Some s"
    by (simp add: getEmailTemplates_map_def Let_def)
  from pages_agree(1) [OF run resolved] listing
  show "getEmailTemplates c fs dirPath = Inr (Some es)"
    by (simp add: getEmailTemplates_def Let_def)
  assume "outcome (getEmailTemplates_map c fs dirPath evs') \<noteq> None"
  from outcome_settled [OF this] obtain s' where reached': "getEmailTemplates_map c fs dirPath evs' = Some s'"
    and settled: "promised s' \<noteq> None"
    by blast
  from reached' listing
  have run': "run 2 (pages_mapping ?table) fs evs' (start (own_keys ?table)) = Some s'"
    by (simp add: getEmailTemplates_map_def Let_def)
  from pages_agree(2) [OF run resolved run' settled] reached'
  show "outcome (getEmailTemplates_map c fs dirPath evs') = Some (Inr es)"
    by (simp add: outcome_def)
qed

lemma getEmailProviders_runs:
  assumes first: "outcome (getEmailProviders_map c fs dirPath evs) = Some (Inr es)"
  shows "getEmailProviders c fs dirPath = Inr (Some es)"
    and "outcome (getEmailProviders_map c fs dirPath evs') \<noteq> None
         \<Longrightarrow> outcome (getEmailProviders_map c fs dirPath evs') = Some (Inr es)"
proof -
  from outcome_resolved [OF first] obtain s where reached: "getEmailProviders_map c fs dirPath evs = Some s"
    and resolved: "promised s = Some (Inr es)"
    by blast
  from reached obtain files where listing: "readdir fs dirPath = Inr files"
    by (cases "readdir fs dirPath") (simp_all add: getEmailProviders_map_def)
  let ?table = "foldl (add_provider_file c dirPath) [] files"
  from reached listing
  have run: "run 2 (providers_mapping ?table) fs evs (start (own_keys ?table)) = Some s"
    by (simp add: getEmailProviders_map_def Let_def)
  from providers_agree(1) [OF run resolved] listing
  show "getEmailProviders c fs dirPath = Inr (Some es)"
    by (simp add: getEmailProviders_def Let_def)
  assume "outcome (getEmailProviders_map c fs dirPath evs') \<noteq> None"
  from outcome_settled [OF this] obtain s' where reached': "getEmailProviders_map c fs dirPath evs' = Some s'"
    and settled: "promised s' \<noteq> None"
    by blast
  from reached' listing
  have run': "run 2 (providers_mapping ?table) fs evs' (start (own_keys ?table)) = Some s'"
    by (simp add: getEmailProviders_map_def Let_def)
  from providers_agree(2) [OF run resolved run' settled] reached'
  show "outcome (getEmailProviders_map c fs dirPath evs') = Some (Inr es)"
    by (simp add: outcome_def)
qed

section \<open>The runs of the scan of the database connections\<close>

lemma add_database_file_distinct:
  "distinct (map fst acc) \<Longrightarrow> distinct (map fst (after (add_database_file c fullDir acc f)))"
  by (auto simp: add_database_file_def Let_def after_def distinct_update
      split: option.splits file_details.splits)

lemma forEach_distinct:
  "distinct (map fst acc)
   \<Longrightarrow> distinct (map fst (after (forEach (add_database_file c fullDir) files acc)))"
proof (induction files arbitrary: acc)
  case Nil
  then show ?case by (simp add: after_def)
next
  case (Cons f files)
  from Cons.prems have d: "distinct (map fst (after (add_database_file c fullDir acc f)))"
    by (rule add_database_file_distinct)
  show ?case
  proof (cases "add_database_file c fullDir acc f")
    case (Returned acc')
    with d have "distinct (map fst acc')" by (simp add: after_def)
    then have "distinct (map fst (after (forEach (add_database_file c fullDir) files acc')))"
      by (rule Cons.IH)
    with Returned show ?thesis by simp
  next
    case (Threw e acc')
    with d show ?thesis by (simp add: after_def)
  qed
qed

lemma connections_distinct:
  "distinct (map fst acc) \<Longrightarrow> distinct (map fst (foldl (scan_connection c fs) acc ps))"
  by (induction ps arbitrary: acc) (simp_all add: scan_connection_after forEach_distinct)

lemma distinct_object_keys: "distinct (map fst obj) \<Longrightarrow> distinct (object_keys obj)"
  by (auto simp: object_keys_def)

lemma distinct_own_keys: "distinct (map fst obj) \<Longrightarrow> distinct (own_keys obj)"
  by (simp add: own_keys_def distinct_object_keys)

lemma databases_feeds:
  "feeds (databases_mapping table) fs db0 ds
   = foldl (\<lambda>d r. completed r (file_contents fs (read_path r)) d) db0 ds"
  by (simp add: feeds_def databases_mapping_def)

text \<open>The content of a connection whose files are \<open>obj\<close>, when all of them were read.\<close>

lemma database_feeds_content:
  assumes perm: "mset ds = mset (database_reads obj)"
  shows "database_content
           (feeds (databases_mapping table) fs
              \<lparr>database_name = n, scripts = [], configurationFile = None,
               configurationFileName = None\<rparr> ds)
         = (n,
            image_mset (\<lambda>s. \<lparr>script_name = sf_name s,
                              scriptFile = file_contents fs (sf_scriptFileName s)\<rparr>)
              (mset (db_scripts obj)),
            map_option (file_contents fs) (db_configurationFileName obj),
            db_configurationFileName obj)"
proof -
  let ?db0 = "\<lparr>database_name = n, scripts = [], configurationFile = None,
               configurationFileName = None\<rparr>"
  let ?load = "foldl (\<lambda>d r. completed r (file_contents fs (read_path r)) d) ?db0"
  have "mset (script_reads ds) = mset (script_reads (database_reads obj))"
    by (simp only: mset_script_reads perm)
  then have scr: "mset (script_reads ds) = mset (db_scripts obj)"
    by (simp add: script_reads_database_reads)
  have "mset (scripts (?load ds))
        = image_mset (\<lambda>s. \<lparr>script_name = sf_name s,
                           scriptFile = file_contents fs (sf_scriptFileName s)\<rparr>)
            (mset (script_reads ds))"
    by (simp add: loaded_database(2))
  then have scripts: "mset (scripts (?load ds))
        = image_mset (\<lambda>s. \<lparr>script_name = sf_name s,
                           scriptFile = file_contents fs (sf_scriptFileName s)\<rparr>)
            (mset (db_scripts obj))"
    by (simp only: scr)
  have "mset (configuration_reads ds) = mset (configuration_reads (database_reads obj))"
    by (simp only: mset_configuration_reads perm)
  then have cfg: "configuration_reads ds
                  = (case db_configurationFileName obj of None \<Rightarrow> [] | Some p \<Rightarrow> [p])"
    by (auto simp: configuration_reads_database_reads split: option.splits)
  have name: "configurationFileName (?load ds) = db_configurationFileName obj"
    by (simp add: loaded_database(3) cfg split: option.splits)
  have contents: "configurationFile (?load ds) = map_option (file_contents fs) (db_configurationFileName obj)"
    by (simp add: loaded_database(4) cfg split: option.splits)
  have "database_name (?load ds) = n"
    by (simp add: loaded_database(1))
  with scripts name contents show ?thesis
    by (simp add: database_content_def databases_feeds)
qed

lemma connections_tables_agree:
  assumes s1: "valid_scheduler s1" and s2: "valid_scheduler s2"
    and base: "path_basename dirPath = DATABASE_CONNECTIONS_DIRECTORY c"
    and names: "list_all ordinary dirs"
  shows "mset (own_keys (connections_table c s2 fs dirPath dirs))
         = mset (own_keys (connections_table c s1 fs dirPath dirs))"
    and "\<forall>k\<in>set (own_keys (connections_table c s1 fs dirPath dirs)).
           database_entry (connections_table c s1 fs dirPath dirs) k
           = Some (field_of no_database_files (connections_table c s1 fs dirPath dirs) k)
           \<and> database_entry (connections_table c s2 fs dirPath dirs) k
             = Some (field_of no_database_files (connections_table c s1 fs dirPath dirs) k)"
proof -
  let ?d1 = "in_completion_order s1 (path_join dirPath) dirs"
  let ?d2 = "in_completion_order s2 (path_join dirPath) dirs"
  let ?a1 = "foldl (scan_connection c fs) [] (map (path_join dirPath) ?d1)"
  let ?a2 = "foldl (scan_connection c fs) [] (map (path_join dirPath) ?d2)"
  have t1: "connections_table c s1 fs dirPath dirs = ?a1"
    and t2: "connections_table c s2 fs dirPath dirs = ?a2"
    by (simp_all add: connections_table_def in_completion_order_map)
  have m1: "mset ?d1 = mset dirs" using s1 by (rule mset_in_completion_order)
  have m2: "mset ?d2 = mset dirs" using s2 by (rule mset_in_completion_order)
  from m1 m2 have sets: "set ?d1 = set dirs" "set ?d2 = set dirs" by (auto dest: mset_eq_setD)
  from names have ord: "\<forall>d\<in>set dirs. d \<notin> set inherited_members"
    by (simp add: list_all_iff ordinary_def)
  from ord sets have ord1: "\<forall>d\<in>set ?d1. d \<notin> set inherited_members"
    and ord2: "\<forall>d\<in>set ?d2. d \<notin> set inherited_members"
    by simp_all
  note plain1 = ordinary_table [OF base ord1, where fs = fs]
  note plain2 = ordinary_table [OF base ord2, where fs = fs]
  have counts: "count_list ?d1 k = count_list ?d2 k" for k
  proof -
    have "count_list ?d1 k = count (mset ?d1) k" by (simp add: count_mset)
    also have "\<dots> = count (mset ?d2) k" by (simp only: m1 m2)
    also have "\<dots> = count_list ?d2 k" by (simp add: count_mset)
    finally show ?thesis .
  qed
  have fields: "field_of no_database_files ?a1 k = field_of no_database_files ?a2 k"
    if k: "k \<notin> set inherited_members" for k
  proof (rule database_files.equality)
    show "db_scripts (field_of no_database_files ?a1 k) = db_scripts (field_of no_database_files ?a2 k)"
      by (simp only: connections_scripts [OF base k] counts)
    show "db_configurationFileName (field_of no_database_files ?a1 k)
          = db_configurationFileName (field_of no_database_files ?a2 k)"
      by (simp only: connections_configuration [OF base k] sets)
  qed simp
  have keys1: "own_keys ?a1 = object_keys ?a1" using plain1(1) by (rule own_keys_plain)
  have keys2: "own_keys ?a2 = object_keys ?a2" using plain2(1) by (rule own_keys_plain)
  have "set (object_keys ?a1) = set (object_keys ?a2)"
    by (simp only: set_object_keys connections_keys [OF base] sets)
  moreover have "distinct (object_keys ?a1)" "distinct (object_keys ?a2)"
    by (simp_all add: distinct_object_keys connections_distinct)
  ultimately have "mset (object_keys ?a2) = mset (object_keys ?a1)"
    by (simp add: set_eq_iff_mset_eq_distinct)
  then show "mset (own_keys (connections_table c s2 fs dirPath dirs))
         = mset (own_keys (connections_table c s1 fs dirPath dirs))"
    by (simp only: t1 t2 keys1 keys2)
  show "\<forall>k\<in>set (own_keys (connections_table c s1 fs dirPath dirs)).
           database_entry (connections_table c s1 fs dirPath dirs) k
           = Some (field_of no_database_files (connections_table c s1 fs dirPath dirs) k)
           \<and> database_entry (connections_table c s2 fs dirPath dirs) k
             = Some (field_of no_database_files (connections_table c s1 fs dirPath dirs) k)"
  proof
    fix k
    assume "k \<in> set (own_keys (connections_table c s1 fs dirPath dirs))"
    then have "k \<in> fst ` set ?a1" by (simp add: t1 set_own_keys)
    then have k: "k \<notin> set inherited_members" by (rule plain1(2))
    from k plain1(1) have "database_entry ?a1 k = Some (field_of no_database_files ?a1 k)"
      by (rule database_entry_plain)
    moreover from k plain2(1) have "database_entry ?a2 k = Some (field_of no_database_files ?a2 k)"
      by (rule database_entry_plain)
    ultimately show "database_entry (connections_table c s1 fs dirPath dirs) k
           = Some (field_of no_database_files (connections_table c s1 fs dirPath dirs) k)
           \<and> database_entry (connections_table c s2 fs dirPath dirs) k
             = Some (field_of no_database_files (connections_table c s1 fs dirPath dirs) k)"
      by (simp add: t1 t2 fields [OF k])
  qed
qed

text \<open>
  A run over a table whose entries are given by \<open>files\<close> resolves with connections of the
  content that \<open>files\<close> determines.
\<close>

lemma databases_run_content:
  assumes run: "run n (databases_mapping table) fs evs (start ks) = Some s"
    and resolved: "promised s = Some (Inr ds)"
    and entries: "\<forall>k\<in>set ks. database_entry table k = Some (files k)"
  shows "map database_content ds
         = map (\<lambda>k. (k,
                 image_mset (\<lambda>s. \<lparr>script_name = sf_name s,
                                   scriptFile = file_contents fs (sf_scriptFileName s)\<rparr>)
                   (mset (db_scripts (files k))),
                 map_option (file_contents fs) (db_configurationFileName (files k)),
                 db_configurationFileName (files k))) ks"
proof (rule nth_equalityI)
  from run_resolved(1) [OF run resolved]
  show "length (map database_content ds)
        = length (map (\<lambda>k. (k,
                 image_mset (\<lambda>s. \<lparr>script_name = sf_name s,
                                   scriptFile = file_contents fs (sf_scriptFileName s)\<rparr>)
                   (mset (db_scripts (files k))),
                 map_option (file_contents fs) (db_configurationFileName (files k)),
                 db_configurationFileName (files k))) ks)"
    by simp
next
  fix i
  assume "i < length (map database_content ds)"
  with run_resolved(1) [OF run resolved] have i: "i < length ks" and i': "i < length ds"
    by simp_all
  from i have kin: "ks ! i \<in> set ks" by simp
  with entries have entry: "database_entry table (ks ! i) = Some (files (ks ! i))" by blast
  from run_resolved(2) [OF run resolved] i
  obtain reads object done_reads
    where called: "called (databases_mapping table) (ks ! i) = Inr (reads, object)"
      and perm: "mset done_reads = mset reads"
      and fed: "ds ! i = feeds (databases_mapping table) fs object done_reads"
    by blast
  from called entry have reads: "reads = database_reads (files (ks ! i))"
    and object: "object = \<lparr>database_name = ks ! i, scripts = [], configurationFile = None,
                           configurationFileName = None\<rparr>"
    by (simp_all add: databases_mapping_def)
  from perm have "mset done_reads = mset (database_reads (files (ks ! i)))"
    by (simp only: reads)
  from database_feeds_content [OF this, of table fs "ks ! i"] fed object i i'
  show "map database_content ds ! i
        = map (\<lambda>k. (k,
                 image_mset (\<lambda>s. \<lparr>script_name = sf_name s,
                                   scriptFile = file_contents fs (sf_scriptFileName s)\<rparr>)
                   (mset (db_scripts (files k))),
                 map_option (file_contents fs) (db_configurationFileName (files k)),
                 db_configurationFileName (files k))) ks ! i"
    by simp
qed

lemma databases_runs_agree:
  assumes s1: "valid_scheduler s1" and s2: "valid_scheduler s2"
    and base: "path_basename dirPath = DATABASE_CONNECTIONS_DIRECTORY c"
    and names: "list_all ordinary (listed fs dirPath)"
    and first: "outcome (getDatabases_map c s1 fs dirPath evs) = Some (Inr ds)"
    and second: "outcome (getDatabases_map c s2 fs dirPath evs') \<noteq> None"
  shows "\<exists>ds'. outcome (getDatabases_map c s2 fs dirPath evs') = Some (Inr ds')
           \<and> mset (map database_content ds') = mset (map database_content ds)"
proof -
  from outcome_resolved [OF first] obtain s where reached: "getDatabases_map c s1 fs dirPath evs = Some s"
    and resolved: "promised s = Some (Inr ds)"
    by blast
  from reached obtain dirs where listing: "readdir fs dirPath = Inr dirs"
    by (cases "readdir fs dirPath") (simp_all add: getDatabases_map_def)
  let ?t1 = "connections_table c s1 fs dirPath dirs"
  let ?t2 = "connections_table c s2 fs dirPath dirs"
  let ?files = "field_of no_database_files ?t1"
  from reached listing have run: "run 2 (databases_mapping ?t1) fs evs (start (own_keys ?t1)) = Some s"
    by (simp add: getDatabases_map_def Let_def)
  from outcome_settled [OF second] listing obtain s'
    where run': "run 2 (databases_mapping ?t2) fs evs' (start (own_keys ?t2)) = Some s'"
      and settled: "promised s' \<noteq> None"
    by (auto simp: getDatabases_map_def Let_def)
  from names listing have names': "list_all ordinary dirs" by (simp add: listed_def)
  note tables = connections_tables_agree [OF s1 s2 base names', where fs = fs]
  from tables(1) have keys: "set (own_keys ?t2) = set (own_keys ?t1)" by (rule mset_eq_setD)
  from tables(2) have e1: "\<forall>k\<in>set (own_keys ?t1). database_entry ?t1 k = Some (?files k)"
    by blast
  from tables(2) keys have e2: "\<forall>k\<in>set (own_keys ?t2). database_entry ?t2 k = Some (?files k)"
    by blast
  have fine: "\<forall>k\<in>set (own_keys ?t2). \<exists>reads object.
                called (databases_mapping ?t2) k = Inr (reads, object)
                \<and> (\<forall>r\<in>set reads. readable fs (target (databases_mapping ?t2) r))"
  proof
    fix k
    assume k2: "k \<in> set (own_keys ?t2)"
    with keys have k1: "k \<in> set (own_keys ?t1)" by simp
    with resolved_keys [OF run resolved] obtain reads object
      where called: "called (databases_mapping ?t1) k = Inr (reads, object)"
        and rd: "\<forall>r\<in>set reads. readable fs (target (databases_mapping ?t1) r)"
      by blast
    from called e1 k1 e2 k2 have "called (databases_mapping ?t2) k = Inr (reads, object)"
      by (simp add: databases_mapping_def)
    moreover from rd have "\<forall>r\<in>set reads. readable fs (target (databases_mapping ?t2) r)"
      by (simp add: databases_mapping_def)
    ultimately show "\<exists>reads object.
                called (databases_mapping ?t2) k = Inr (reads, object)
                \<and> (\<forall>r\<in>set reads. readable fs (target (databases_mapping ?t2) r))"
      by blast
  qed
  from run' fine have "rejection s' = None" by (rule run_not_rejected)
  with settled have resolved': "promised s' = Some (Inr (map the (results s')))"
    by (rule promised_settled)
  let ?content = "\<lambda>k. (k,
                 image_mset (\<lambda>s. \<lparr>script_name = sf_name s,
                                   scriptFile = file_contents fs (sf_scriptFileName s)\<rparr>)
                   (mset (db_scripts (?files k))),
                 map_option (file_contents fs) (db_configurationFileName (?files k)),
                 db_configurationFileName (?files k))"
  from databases_run_content [OF run resolved e1]
  have c1: "map database_content ds = map ?content (own_keys ?t1)" .
  from databases_run_content [OF run' resolved' e2]
  have c2: "map database_content (map the (results s')) = map ?content (own_keys ?t2)" .
  have "mset (map ?content (own_keys ?t2)) = image_mset ?content (mset (own_keys ?t2))"
    by simp
  also have "\<dots> = image_mset ?content (mset (own_keys ?t1))"
    by (simp only: tables(1))
  also have "\<dots> = mset (map ?content (own_keys ?t1))"
    by simp
  finally have "mset (map database_content (map the (results s'))) = mset (map database_content ds)"
    by (simp only: c1 c2)
  moreover from run' resolved' listing
  have "outcome (getDatabases_map c s2 fs dirPath evs') = Some (Inr (map the (results s')))"
    by (simp add: getDatabases_map_def Let_def outcome_def)
  ultimately show ?thesis by blast
qed

lemma databases_run_getDatabases:
  assumes s1: "valid_scheduler s1" and s2: "valid_scheduler s2"
    and base: "path_basename dirPath = DATABASE_CONNECTIONS_DIRECTORY c"
    and names: "list_all ordinary (listed fs dirPath)"
    and first: "outcome (getDatabases_map c s1 fs dirPath evs) = Some (Inr ds)"
  shows "\<exists>ds'. getDatabases c s2 fs dirPath = Inr (Some ds')
           \<and> mset (map database_content ds') = mset (map database_content ds)"
proof -
  from outcome_resolved [OF first] obtain s where reached: "getDatabases_map c s1 fs dirPath evs = Some s"
    and resolved: "promised s = Some (Inr ds)"
    by blast
  from reached obtain dirs where listing: "readdir fs dirPath = Inr dirs"
    by (cases "readdir fs dirPath") (simp_all add: getDatabases_map_def)
  let ?t1 = "connections_table c s1 fs dirPath dirs"
  let ?t2 = "connections_table c s2 fs dirPath dirs"
  let ?files = "field_of no_database_files ?t1"
  let ?db0 = "\<lambda>k. \<lparr>database_name = k, scripts = [], configurationFile = None,
                    configurationFileName = None\<rparr>"
  let ?order = "\<lambda>k. in_completion_order s2 read_path (database_reads (?files k))"
  let ?g = "\<lambda>k. feeds (databases_mapping ?t2) fs (?db0 k) (?order k)"
  let ?mapper = "\<lambda>k. readDatabaseFiles s2 fs k (database_entry ?t2 k)"
  from reached listing have run: "run 2 (databases_mapping ?t1) fs evs (start (own_keys ?t1)) = Some s"
    by (simp add: getDatabases_map_def Let_def)
  from names listing have names': "list_all ordinary dirs" by (simp add: listed_def)
  note tables = connections_tables_agree [OF s1 s2 base names', where fs = fs]
  from tables(1) have keys: "set (own_keys ?t2) = set (own_keys ?t1)" by (rule mset_eq_setD)
  from tables(2) have e1: "\<forall>k\<in>set (own_keys ?t1). database_entry ?t1 k = Some (?files k)"
    by blast
  from tables(2) keys have e2: "\<forall>k\<in>set (own_keys ?t2). database_entry ?t2 k = Some (?files k)"
    by blast
  have perm: "mset (?order k) = mset (database_reads (?files k))" for k
    using s2 by (rule mset_in_completion_order)
  have each: "\<forall>k\<in>set (own_keys ?t2). ?mapper k = Inr (?g k)"
  proof
    fix k
    assume k2: "k \<in> set (own_keys ?t2)"
    with keys have k1: "k \<in> set (own_keys ?t1)" by simp
    with resolved_keys [OF run resolved] obtain reads object
      where called: "called (databases_mapping ?t1) k = Inr (reads, object)"
        and rd: "\<forall>r\<in>set reads. readable fs (target (databases_mapping ?t1) r)"
      by blast
    from called e1 k1 have "reads = database_reads (?files k)"
      by (simp add: databases_mapping_def)
    with rd have "\<forall>r\<in>set (database_reads (?files k)). readable fs (read_path r)"
      by (simp add: databases_mapping_def)
    moreover from perm have "set (?order k) = set (database_reads (?files k))"
      by (rule mset_eq_setD)
    ultimately have "\<forall>r\<in>set (?order k). readable fs (read_path r)"
      by simp
    then have "\<forall>r\<in>set (?order k). \<exists>s. readFile fs (read_path r) = Inr s"
      using readable_file by blast
    then have "settle_reads fs (?order k) (?db0 k)
               = Inr (foldl (\<lambda>d r. completed r (file_contents fs (read_path r)) d) (?db0 k) (?order k))"
      by (simp add: settle_reads_iff)
    with e2 k2 show "?mapper k = Inr (?g k)"
      by (simp add: readDatabaseFiles_def databases_feeds)
  qed
  then have "promise_map ?mapper (own_keys ?t2) = Inr (map ?g (own_keys ?t2))"
    by (rule promise_map_map)
  then have "promise_map
           (\<lambda>databaseName. readDatabaseFiles s2 fs databaseName
              (database_entry
                 (foldl (scan_connection c fs) []
                    (map (path_join dirPath) (in_completion_order s2 (path_join dirPath) dirs)))
                 databaseName))
           (own_keys
              (foldl (scan_connection c fs) []
                 (map (path_join dirPath) (in_completion_order s2 (path_join dirPath) dirs))))
         = Inr (map ?g (own_keys ?t2))"
    by (simp add: connections_table_def in_completion_order_map)
  with listing have result: "getDatabases c s2 fs dirPath = Inr (Some (map ?g (own_keys ?t2)))"
    by (rule getDatabases_mapped)
  let ?content = "\<lambda>k. (k,
                 image_mset (\<lambda>s. \<lparr>script_name = sf_name s,
                                   scriptFile = file_contents fs (sf_scriptFileName s)\<rparr>)
                   (mset (db_scripts (?files k))),
                 map_option (file_contents fs) (db_configurationFileName (?files k)),
                 db_configurationFileName (?files k))"
  from databases_run_content [OF run resolved e1]
  have c1: "map database_content ds = map ?content (own_keys ?t1)" .
  have "database_content (?g k) = ?content k" for k
    using perm by (rule database_feeds_content)
  then have c2: "map database_content (map ?g (own_keys ?t2)) = map ?content (own_keys ?t2)"
    by simp
  have "mset (map ?content (own_keys ?t2)) = image_mset ?content (mset (own_keys ?t2))"
    by simp
  also have "\<dots> = image_mset ?content (mset (own_keys ?t1))"
    by (simp only: tables(1))
  also have "\<dots> = mset (map ?content (own_keys ?t1))"
    by simp
  finally have "mset (map database_content (map ?g (own_keys ?t2))) = mset (map database_content ds)"
    by (simp only: c1 c2)
  with result show ?thesis by blast
qed

section \<open>Input that is neither a file nor a directory\<close>

text \<open>
  Claim C5. When \<^verbatim>\<open>lstat\<close> (which does not follow symbolic links) says that the resolved
  input path is neither a directory nor a regular file, as it does for every symbolic
  link, \<^verbatim>\<open>init\<close> rejects with the message \<^verbatim>\<open>Not sure what to do with, <path>, it is not a
  file or directory...\<close> naming the resolved path. No listing and no read takes part: the
  result is the same whatever \<^verbatim>\<open>readdir\<close> and \<^verbatim>\<open>readFile\<close> would answer.
\<close>

theorem unsupported_input_rejected:
  assumes "lstat fs (path_resolve rt (fileName ctx)) = Inr st"
    and "\<not> isDirectory st"
    and "\<not> isFile st"
  shows "init c lib rt (fs\<lparr>readdir := rd, readFile := rf\<rparr>) ctx progress =
         Inl (new_Error (''Not sure what to do with, ''
                         @ path_string (path_resolve rt (fileName ctx))
                         @ '', it is not a file or directory...''))"
  using assms by (simp add: init_def getChanges_def Let_def)

theorem unsupported_input_rejected_witness:
  "lstat (tree_fs link_tree) (path_resolve example_runtime (fileName (new_Context ''/repo/link'' JUndefined)))
     = Inr SymbolicLink
   \<and> \<not> isDirectory SymbolicLink \<and> \<not> isFile SymbolicLink
   \<and> init example_constants example_tools example_runtime (tree_fs link_tree)
       (new_Context ''/repo/link'' JUndefined) JUndefined =
     Inl (new_Error ''Not sure what to do with, /repo/link, it is not a file or directory...'')"
proof -
  have l: "lstat (tree_fs link_tree)
             (path_resolve example_runtime (fileName (new_Context ''/repo/link'' JUndefined)))
           = Inr SymbolicLink"
    by (simp add: tree_fs_def link_tree_def example_runtime_def split_path_def new_Context_def)
  have d: "\<not> isDirectory SymbolicLink" by (simp add: isDirectory_def)
  have f: "\<not> isFile SymbolicLink" by (simp add: isFile_def)
  have p: "path_string (path_resolve example_runtime (fileName (new_Context ''/repo/link'' JUndefined)))
           = ''/repo/link''"
    by (simp add: example_runtime_def split_path_def new_Context_def path_string_def)
  from unsupported_input_rejected [OF l d f, where c = example_constants and lib = example_tools
      and rd = "readdir (tree_fs link_tree)" and rf = "readFile (tree_fs link_tree)"
      and progress = JUndefined]
  show ?thesis using l d f p by simp
qed

section \<open>A directory that cannot be listed\<close>

text \<open>
  Claim C2, as the code has it. The claim gives one template for all seven resource
  types, \<^verbatim>\<open>Couldn't process the <resource> directory because: <underlying message>\<close>. The
  code has a fixed prefix per type, and only three of them have the article: for the
  pages directory, which is a regular file in the tree below, the message is
  \<^verbatim>\<open>Couldn't process pages directory because: ...\<close>, as the tests of the repository expect.
\<close>

theorem pages_message_counterexample:
  "init example_constants example_tools example_runtime (tree_fs pages_file_tree)
     (new_Context ''/repo'' JUndefined) JUndefined
   = Inl (new_Error (''Couldn't process pages directory because: ENOTDIR: not a directory, ''
                     @ ''scandir '/repo/pages'' @ [CHR 0x27]))
   \<and> take 21 (''Couldn't process pages directory because: ENOTDIR: not a directory, ''
               @ ''scandir '/repo/pages'' @ [CHR 0x27])
     \<noteq> ''Couldn't process the ''"
  by code_simp

text \<open>
  Claim C2, amended. For each of the seven resource types: when the listing of the type's
  directory fails with an error \<open>e\<close> other than \<^verbatim>\<open>ENOENT\<close>, the collector rejects with the
  message made of the type's own prefix and the message of \<open>e\<close>; and when no other
  collector rejects, \<^verbatim>\<open>init\<close> rejects with that same error. The prefixes are
  \<^verbatim>\<open>Couldn't process the rules directory because: \<close>,
  \<^verbatim>\<open>Couldn't process pages directory because: \<close>,
  \<^verbatim>\<open>Couldn't process database scripts directory because: \<close>,
  \<^verbatim>\<open>Couldn't process client directory because: \<close>,
  \<^verbatim>\<open>Couldn't process resource server directory because: \<close>,
  \<^verbatim>\<open>Couldn't process the email templates directory because: \<close> and
  \<^verbatim>\<open>Couldn't process the email providers directory because: \<close>.
\<close>

theorem scan_failure_messages:
  assumes dir: "lstat fs (path_resolve rt (fileName ctx)) = Inr Directory"
    and root: "root = path_resolve rt (fileName ctx)"
    and other: "code e \<noteq> Some ''ENOENT''"
  shows
    "(readdir fs (path_join root (RULES_DIRECTORY c)) = Inl e \<longrightarrow>
        getRules fs (path_join root (RULES_DIRECTORY c))
          = Inl (new_Error (''Couldn't process the rules directory because: '' @ message e))
        \<and> (others_resolve ''rules'' (collectors c rt fs root) \<longrightarrow>
             init c lib rt fs ctx progress
               = Inl (new_Error (''Couldn't process the rules directory because: '' @ message e))))
     \<and> (readdir fs (path_join root (PAGES_DIRECTORY c)) = Inl e \<longrightarrow>
        getPages c fs (path_join root (PAGES_DIRECTORY c))
          = Inl (new_Error (''Couldn't process pages directory because: '' @ message e))
        \<and> (others_resolve ''pages'' (collectors c rt fs root) \<longrightarrow>
             init c lib rt fs ctx progress
               = Inl (new_Error (''Couldn't process pages directory because: '' @ message e))))
     \<and> (readdir fs (path_join root (DATABASE_CONNECTIONS_DIRECTORY c)) = Inl e \<longrightarrow>
        getDatabases c (completion rt) fs (path_join root (DATABASE_CONNECTIONS_DIRECTORY c))
          = Inl (new_Error (''Couldn't process database scripts directory because: '' @ message e))
        \<and> (others_resolve ''databases'' (collectors c rt fs root) \<longrightarrow>
             init c lib rt fs ctx progress
               = Inl (new_Error (''Couldn't process database scripts directory because: ''
                                 @ message e))))
     \<and> (readdir fs (path_join root (CLIENTS_DIRECTORY c)) = Inl e \<longrightarrow>
        getConfigurableConfigs fs (path_join root (CLIENTS_DIRECTORY c)) ''client''
          = Inl (new_Error (''Couldn't process client directory because: '' @ message e))
        \<and> (others_resolve ''clients'' (collectors c rt fs root) \<longrightarrow>
             init c lib rt fs ctx progress
               = Inl (new_Error (''Couldn't process client directory because: '' @ message e))))
     \<and> (readdir fs (path_join root (RESOURCE_SERVERS_DIRECTORY c)) = Inl e \<longrightarrow>
        getConfigurableConfigs fs (path_join root (RESOURCE_SERVERS_DIRECTORY c)) ''resource server''
          = Inl (new_Error (''Couldn't process resource server directory because: '' @ message e))
        \<and> (others_resolve ''resourceServers'' (collectors c rt fs root) \<longrightarrow>
             init c lib rt fs ctx progress
               = Inl (new_Error (''Couldn't process resource server directory because: ''
                                 @ message e))))
     \<and> (readdir fs (path_join root (EMAIL_TEMPLATES_DIRECTORY c)) = Inl e \<longrightarrow>
        getEmailTemplates c fs (path_join root (EMAIL_TEMPLATES_DIRECTORY c))
          = Inl (new_Error (''Couldn't process the email templates directory because: '' @ message e))
        \<and> (others_resolve ''emailTemplates'' (collectors c rt fs root) \<longrightarrow>
             init c lib rt fs ctx progress
               = Inl (new_Error (''Couldn't process the email templates directory because: ''
                                 @ message e))))
     \<and> (readdir fs (path_join root (EMAIL_PROVIDERS_DIRECTORY c)) = Inl e \<longrightarrow>
        getEmailProviders c fs (path_join root (EMAIL_PROVIDERS_DIRECTORY c))
          = Inl (new_Error (''Couldn't process the email providers directory because: '' @ message e))
        \<and> (others_resolve ''emailProviders'' (collectors c rt fs root) \<longrightarrow>
             init c lib rt fs ctx progress
               = Inl (new_Error (''Couldn't process the email providers directory because: ''
                                 @ message e))))"
proof -
  note rej = init_rejects [OF dir, of c _ _ lib progress, folded root]
  have rules: "readdir fs (path_join root (RULES_DIRECTORY c)) = Inl e \<longrightarrow>
        getRules fs (path_join root (RULES_DIRECTORY c))
          = Inl (new_Error (''Couldn't process the rules directory because: '' @ message e))
        \<and> (others_resolve ''rules'' (collectors c rt fs root) \<longrightarrow>
             init c lib rt fs ctx progress
               = Inl (new_Error (''Couldn't process the rules directory because: '' @ message e)))"
    using other rej [of "''rules''"]
    by (simp add: collectors_rules getRules_listing_fails catch_scan_other resolved_def)
  have pages: "readdir fs (path_join root (PAGES_DIRECTORY c)) = Inl e \<longrightarrow>
        getPages c fs (path_join root (PAGES_DIRECTORY c))
          = Inl (new_Error (''Couldn't process pages directory because: '' @ message e))
        \<and> (others_resolve ''pages'' (collectors c rt fs root) \<longrightarrow>
             init c lib rt fs ctx progress
               = Inl (new_Error (''Couldn't process pages directory because: '' @ message e)))"
    using other rej [of "''pages''"]
    by (simp add: collectors_pages getPages_listing_fails catch_scan_other resolved_def)
  have databases: "readdir fs (path_join root (DATABASE_CONNECTIONS_DIRECTORY c)) = Inl e \<longrightarrow>
        getDatabases c (completion rt) fs (path_join root (DATABASE_CONNECTIONS_DIRECTORY c))
          = Inl (new_Error (''Couldn't process database scripts directory because: '' @ message e))
        \<and> (others_resolve ''databases'' (collectors c rt fs root) \<longrightarrow>
             init c lib rt fs ctx progress
               = Inl (new_Error (''Couldn't process database scripts directory because: ''
                                 @ message e)))"
    using other rej [of "''databases''"]
    by (simp add: collectors_databases getDatabases_listing_fails catch_scan_other resolved_def)
  have clients: "readdir fs (path_join root (CLIENTS_DIRECTORY c)) = Inl e \<longrightarrow>
        getConfigurableConfigs fs (path_join root (CLIENTS_DIRECTORY c)) ''client''
          = Inl (new_Error (''Couldn't process client directory because: '' @ message e))
        \<and> (others_resolve ''clients'' (collectors c rt fs root) \<longrightarrow>
             init c lib rt fs ctx progress
               = Inl (new_Error (''Couldn't process client directory because: '' @ message e)))"
    using other rej [of "''clients''"]
    by (simp add: collectors_clients getConfigurableConfigs_listing_fails catch_scan_other
        resolved_def)
  have servers: "readdir fs (path_join root (RESOURCE_SERVERS_DIRECTORY c)) = Inl e \<longrightarrow>
        getConfigurableConfigs fs (path_join root (RESOURCE_SERVERS_DIRECTORY c)) ''resource server''
          = Inl (new_Error (''Couldn't process resource server directory because: '' @ message e))
        \<and> (others_resolve ''resourceServers'' (collectors c rt fs root) \<longrightarrow>
             init c lib rt fs ctx progress
               = Inl (new_Error (''Couldn't process resource server directory because: ''
                                 @ message e)))"
    using other rej [of "''resourceServers''"]
    by (simp add: collectors_resourceServers getConfigurableConfigs_listing_fails catch_scan_other
        resolved_def)
  have templates: "readdir fs (path_join root (EMAIL_TEMPLATES_DIRECTORY c)) = Inl e \<longrightarrow>
        getEmailTemplates c fs (path_join root (EMAIL_TEMPLATES_DIRECTORY c))
          = Inl (new_Error (''Couldn't process the email templates directory because: '' @ message e))
        \<and> (others_resolve ''emailTemplates'' (collectors c rt fs root) \<longrightarrow>
             init c lib rt fs ctx progress
               = Inl (new_Error (''Couldn't process the email templates directory because: ''
                                 @ message e)))"
    using other rej [of "''emailTemplates''"]
    by (simp add: collectors_emailTemplates getEmailTemplates_listing_fails catch_scan_other
        resolved_def)
  have providers: "readdir fs (path_join root (EMAIL_PROVIDERS_DIRECTORY c)) = Inl e \<longrightarrow>
        getEmailProviders c fs (path_join root (EMAIL_PROVIDERS_DIRECTORY c))
          = Inl (new_Error (''Couldn't process the email providers directory because: '' @ message e))
        \<and> (others_resolve ''emailProviders'' (collectors c rt fs root) \<longrightarrow>
             init c lib rt fs ctx progress
               = Inl (new_Error (''Couldn't process the email providers directory because: ''
                                 @ message e)))"
    using other rej [of "''emailProviders''"]
    by (simp add: collectors_emailProviders getEmailProviders_listing_fails catch_scan_other
        resolved_def)
  from rules pages databases clients servers templates providers show ?thesis
    by (intro conjI)
qed

theorem scan_failure_messages_witness:
  "lstat (tree_fs pages_file_tree)
     (path_resolve example_runtime (fileName (new_Context ''/repo'' JUndefined))) = Inr Directory
   \<and> code (fs_error ''ENOTDIR'' ''scandir'' [''repo'', ''pages'']) \<noteq> Some ''ENOENT''
   \<and> readdir (tree_fs pages_file_tree) (path_join [''repo''] (PAGES_DIRECTORY example_constants))
       = Inl (fs_error ''ENOTDIR'' ''scandir'' [''repo'', ''pages''])
   \<and> others_resolve ''pages''
       (collectors example_constants example_runtime (tree_fs pages_file_tree) [''repo''])
   \<and> init example_constants example_tools example_runtime (tree_fs pages_file_tree)
       (new_Context ''/repo'' JUndefined) JUndefined
     = Inl (new_Error (''Couldn't process pages directory because: ''
                       @ message (fs_error ''ENOTDIR'' ''scandir'' [''repo'', ''pages''])))"
proof -
  have dir: "lstat (tree_fs pages_file_tree)
      (path_resolve example_runtime (fileName (new_Context ''/repo'' JUndefined))) = Inr Directory"
    by code_simp
  have root: "[''repo''] = path_resolve example_runtime (fileName (new_Context ''/repo'' JUndefined))"
    by code_simp
  have other: "code (fs_error ''ENOTDIR'' ''scandir'' [''repo'', ''pages'']) \<noteq> Some ''ENOENT''"
    by code_simp
  have listing: "readdir (tree_fs pages_file_tree)
      (path_join [''repo''] (PAGES_DIRECTORY example_constants))
      = Inl (fs_error ''ENOTDIR'' ''scandir'' [''repo'', ''pages''])"
    by code_simp
  have others: "others_resolve ''pages''
      (collectors example_constants example_runtime (tree_fs pages_file_tree) [''repo''])"
    by code_simp
  from scan_failure_messages [OF dir root other, where c = example_constants
      and lib = example_tools and progress = JUndefined]
  have "readdir (tree_fs pages_file_tree) (path_join [''repo''] (PAGES_DIRECTORY example_constants))
          = Inl (fs_error ''ENOTDIR'' ''scandir'' [''repo'', ''pages'']) \<longrightarrow>
        (others_resolve ''pages''
           (collectors example_constants example_runtime (tree_fs pages_file_tree) [''repo'']) \<longrightarrow>
         init example_constants example_tools example_runtime (tree_fs pages_file_tree)
           (new_Context ''/repo'' JUndefined) JUndefined
         = Inl (new_Error (''Couldn't process pages directory because: ''
                           @ message (fs_error ''ENOTDIR'' ''scandir'' [''repo'', ''pages'']))))"
    by blast
  with dir other listing others show ?thesis by blast
qed

section \<open>A directory that does not exist\<close>



section \<open>A single descriptor file\<close>

text \<open>
  Claim C4, as the code has it. \<^verbatim>\<open>init\<close> copies each collection with \<^verbatim>\<open>data.x || default\<close>, so
  a collection that the document holds with a falsy value is replaced by the default like
  one that is absent. The descriptor below holds \<^verbatim>\<open>databases\<close> as \<^verbatim>\<open>null\<close> and \<^verbatim>\<open>pages\<close> as
  the number 0: the context has the empty array and the empty object in their place, so
  it does not equal the document field for field.
\<close>

theorem falsy_collection_counterexample:
  "lstat (tree_fs descriptor_tree) (path_resolve descriptor_runtime ''/repo/tenant.json'')
     = Inr RegularFile
   \<and> readFile (tree_fs descriptor_tree) (path_resolve descriptor_runtime ''/repo/tenant.json'')
     = Inr descriptor_text
   \<and> JSON_parse descriptor_runtime descriptor_text
     = Inr (JObject [(''rules'', JObject [(''welcome'', JObject [])]),
                     (''databases'', JNull), (''pages'', JNumber 0)])
   \<and> map_sum message (\<lambda>ctx'. (rules ctx', databases ctx', pages ctx'))
       (init example_constants example_tools descriptor_runtime (tree_fs descriptor_tree)
          (new_Context ''/repo/tenant.json'' JUndefined) JUndefined)
     = Inr (JObject [(''welcome'', JObject [])], JArray [], JObject [])"
  by code_simp

text \<open>
  Claim C4, amended. When the input path is a regular file, its contents are parsed and
  the parsed document is the data: \<^verbatim>\<open>getChanges\<close> returns it as it is, whatever the
  constants, the library functions, the mappings and the directory listings are, so
  nothing is substituted and nothing is scanned. Each of the seven collections of the
  context is the document's field of that name when the document has the field with a
  value that is not falsy, and the empty default of its type when the field is absent or
  its value is falsy (\<^verbatim>\<open>null\<close>, \<^verbatim>\<open>false\<close>, 0 or the empty string).
\<close>

theorem file_input_used_directly:
  assumes regular: "lstat fs (path_resolve rt (fileName ctx)) = Inr RegularFile"
    and contents: "readFile fs (path_resolve rt (fileName ctx)) = Inr contents"
    and parsed: "JSON_parse rt contents = Inr (JObject doc)"
  shows "getChanges c lib rt (fs\<lparr>readdir := rd\<rparr>) (fileName ctx) m = Inr (JObject doc)
     \<and> (\<exists>ctx'. init c lib rt (fs\<lparr>readdir := rd\<rparr>) ctx progress = Inr ctx'
          \<and> pages ctx'
              = (case map_of doc ''pages'' of
                   None \<Rightarrow> JObject [] | Some v \<Rightarrow> if truthy v then v else JObject [])
          \<and> rules ctx'
              = (case map_of doc ''rules'' of
                   None \<Rightarrow> JObject [] | Some v \<Rightarrow> if truthy v then v else JObject [])
          \<and> databases ctx'
              = (case map_of doc ''databases'' of
                   None \<Rightarrow> JArray [] | Some v \<Rightarrow> if truthy v then v else JArray [])
          \<and> clients ctx'
              = (case map_of doc ''clients'' of
                   None \<Rightarrow> JObject [] | Some v \<Rightarrow> if truthy v then v else JObject [])
          \<and> resourceServers ctx'
              = (case map_of doc ''resourceServers'' of
                   None \<Rightarrow> JObject [] | Some v \<Rightarrow> if truthy v then v else JObject [])
          \<and> emailTemplates ctx'
              = (case map_of doc ''emailTemplates'' of
                   None \<Rightarrow> JObject [] | Some v \<Rightarrow> if truthy v then v else JObject [])
          \<and> emailProviders ctx'
              = (case map_of doc ''emailProviders'' of
                   None \<Rightarrow> JObject [] | Some v \<Rightarrow> if truthy v then v else JObject []))"
proof -
  have data: "getChanges c lib rt (fs\<lparr>readdir := rd\<rparr>) (fileName ctx) m' = Inr (JObject doc)" for m'
    using regular contents parsed
    by (simp add: getChanges_def Let_def isDirectory_def isFile_def)
  have field: "js_or (get_property (JObject doc) k) d
               = (case map_of doc k of None \<Rightarrow> d | Some v \<Rightarrow> if truthy v then v else d)" for k d
    by (simp add: js_or_def split: option.splits)
  have "\<exists>ctx'. init c lib rt (fs\<lparr>readdir := rd\<rparr>) ctx progress = Inr ctx'
          \<and> pages ctx' = js_or (get_property (JObject doc) ''pages'') (JObject [])
          \<and> rules ctx' = js_or (get_property (JObject doc) ''rules'') (JObject [])
          \<and> databases ctx' = js_or (get_property (JObject doc) ''databases'') (JArray [])
          \<and> clients ctx' = js_or (get_property (JObject doc) ''clients'') (JObject [])
          \<and> resourceServers ctx' = js_or (get_property (JObject doc) ''resourceServers'') (JObject [])
          \<and> emailTemplates ctx' = js_or (get_property (JObject doc) ''emailTemplates'') (JObject [])
          \<and> emailProviders ctx' = js_or (get_property (JObject doc) ''emailProviders'') (JObject [])"
    unfolding init_def Let_def by (simp add: data del: get_property.simps)
  then show ?thesis
    unfolding field using data by blast
qed

theorem file_input_used_directly_witness:
  "lstat (tree_fs descriptor_tree)
     (path_resolve descriptor_runtime (fileName (new_Context ''/repo/tenant.json'' JUndefined)))
     = Inr RegularFile
   \<and> readFile (tree_fs descriptor_tree)
       (path_resolve descriptor_runtime (fileName (new_Context ''/repo/tenant.json'' JUndefined)))
     = Inr descriptor_text
   \<and> JSON_parse descriptor_runtime descriptor_text = Inr (JObject descriptor_document)
   \<and> (\<exists>ctx'. init example_constants example_tools descriptor_runtime (tree_fs descriptor_tree)
               (new_Context ''/repo/tenant.json'' JUndefined) JUndefined = Inr ctx'
             \<and> rules ctx' = JObject [(''welcome'', JObject [])]
             \<and> databases ctx' = JArray []
             \<and> pages ctx' = JObject []
             \<and> clients ctx' = JObject [])"
proof -
  have regular: "lstat (tree_fs descriptor_tree)
      (path_resolve descriptor_runtime (fileName (new_Context ''/repo/tenant.json'' JUndefined)))
      = Inr RegularFile"
    by code_simp
  have contents: "readFile (tree_fs descriptor_tree)
      (path_resolve descriptor_runtime (fileName (new_Context ''/repo/tenant.json'' JUndefined)))
      = Inr descriptor_text"
    by code_simp
  have parsed: "JSON_parse descriptor_runtime descriptor_text = Inr (JObject descriptor_document)"
    by code_simp
  have same: "(tree_fs descriptor_tree)\<lparr>readdir := readdir (tree_fs descriptor_tree)\<rparr>
      = tree_fs descriptor_tree"
    by simp
  have fields: "map_of descriptor_document ''rules'' = Some (JObject [(''welcome'', JObject [])])"
    "map_of descriptor_document ''databases'' = Some JNull"
    "map_of descriptor_document ''pages'' = Some (JNumber 0)"
    "map_of descriptor_document ''clients'' = None"
    by (simp_all add: descriptor_document_def)
  from file_input_used_directly [OF regular contents parsed, where c = example_constants
      and lib = example_tools and rd = "readdir (tree_fs descriptor_tree)" and progress = JUndefined]
  obtain ctx' where "init example_constants example_tools descriptor_runtime (tree_fs descriptor_tree)
               (new_Context ''/repo/tenant.json'' JUndefined) JUndefined = Inr ctx'"
    and "rules ctx' = JObject [(''welcome'', JObject [])]"
    and "databases ctx' = JArray []"
    and "pages ctx' = JObject []"
    and "clients ctx' = JObject []"
    unfolding same fields by auto
  with regular contents parsed show ?thesis by blast
qed

section \<open>Which mappings are used\<close>

lemma getChanges_agree:
  assumes "agree_at lib lib' m"
  shows "getChanges c lib rt fs filePath m = getChanges c lib' rt fs filePath m"
proof -
  from assms have s: "unifyScripts lib coll m = unifyScripts lib' coll m" for coll
    by (simp add: agree_at_def)
  from assms have d: "unifyDatabases lib coll m = unifyDatabases lib' coll m" for coll
    by (simp add: agree_at_def)
  show ?thesis by (simp add: getChanges_def Let_def s d split: sum.splits)
qed

text \<open>
  Claim C10, as the code has it. \<^verbatim>\<open>init\<close> takes the constructor's mappings with
  \<^verbatim>\<open>me.mappings || (progress && progress.mappings)\<close>, which tests them for truth, not for
  \<^verbatim>\<open>null\<close>. A context constructed with the empty string, with 0 or with \<^verbatim>\<open>false\<close> as
  mappings has a mappings argument that is not \<^verbatim>\<open>null\<close>, and \<^verbatim>\<open>init\<close> uses
  \<^verbatim>\<open>progress.mappings\<close>: they are the mappings of the context afterwards and the ones the
  library functions are given.
\<close>

theorem falsy_mappings_counterexample:
  "map_sum message (\<lambda>ctx'. (mappings ctx', rules ctx'))
     (init example_constants example_tools example_runtime (tree_fs rules_tree)
        (new_Context ''/repo'' (JString []))
        (JObject [(''mappings'', JObject [(''hello'', JString ''hi'')])]))
   = Inr (JObject [(''hello'', JString ''hi'')],
          JObject [(''welcome'', JObject [(''hello'', JString ''hi'')])])
   \<and> map_sum message (\<lambda>ctx'. (mappings ctx', rules ctx'))
     (init example_constants example_tools example_runtime (tree_fs rules_tree)
        (new_Context ''/repo'' (JNumber 0))
        (JObject [(''mappings'', JObject [(''hello'', JString ''hi'')])]))
   = Inr (JObject [(''hello'', JString ''hi'')],
          JObject [(''welcome'', JObject [(''hello'', JString ''hi'')])])
   \<and> map_sum message (\<lambda>ctx'. (mappings ctx', rules ctx'))
     (init example_constants example_tools example_runtime (tree_fs rules_tree)
        (new_Context ''/repo'' (JBool False))
        (JObject [(''mappings'', JObject [(''hello'', JString ''hi'')])]))
   = Inr (JObject [(''hello'', JString ''hi'')],
          JObject [(''welcome'', JObject [(''hello'', JString ''hi'')])])"
  by code_simp

text \<open>
  Claim C10, amended. When the context was constructed with mappings that are not falsy
  (any object, in particular a dictionary), \<^verbatim>\<open>init(progress)\<close> does not depend on
  \<open>progress\<close>, it depends on the library functions only through what they return on the
  constructor's mappings, and the mappings of the context stay the constructor's. When
  the context was constructed with falsy mappings (\<^verbatim>\<open>undefined\<close>, \<^verbatim>\<open>null\<close>, \<^verbatim>\<open>false\<close>, 0 or
  the empty string) and \<open>progress\<close> is not falsy, \<^verbatim>\<open>init\<close> depends on the library functions
  only through what they return on \<^verbatim>\<open>progress.mappings\<close>, which become the mappings of the
  context.
\<close>

theorem constructor_mappings_first:
  "(truthy (mappings ctx) \<and> agree_at lib lib' (mappings ctx) \<longrightarrow>
      init c lib rt fs ctx progress = init c lib' rt fs ctx progress'
      \<and> (\<forall>ctx'. init c lib rt fs ctx progress = Inr ctx' \<longrightarrow> mappings ctx' = mappings ctx))
   \<and> (\<not> truthy (mappings ctx) \<and> truthy progress
       \<and> agree_at lib lib' (get_property progress ''mappings'') \<longrightarrow>
      init c lib rt fs ctx progress = init c lib' rt fs ctx progress
      \<and> (\<forall>ctx'. init c lib rt fs ctx progress = Inr ctx' \<longrightarrow>
            mappings ctx' = get_property progress ''mappings''))"
proof (intro conjI impI allI)
  assume a: "truthy (mappings ctx) \<and> agree_at lib lib' (mappings ctx)"
  then have m: "js_or (mappings ctx) x = mappings ctx" for x
    by (simp add: js_or_def)
  from a have "agree_at lib lib' (mappings ctx)" by blast
  then have "getChanges c lib rt fs (fileName ctx) (mappings ctx)
               = getChanges c lib' rt fs (fileName ctx) (mappings ctx)"
    by (rule getChanges_agree)
  then show "init c lib rt fs ctx progress = init c lib' rt fs ctx progress'"
    by (simp add: init_def Let_def m)
  fix ctx'
  assume "init c lib rt fs ctx progress = Inr ctx'"
  then show "mappings ctx' = mappings ctx"
    by (auto simp: init_def Let_def m split: sum.splits if_splits)
next
  assume a: "\<not> truthy (mappings ctx) \<and> truthy progress
             \<and> agree_at lib lib' (get_property progress ''mappings'')"
  then have m: "js_or (mappings ctx) (js_and progress (get_property progress ''mappings''))
                = get_property progress ''mappings''"
    by (simp add: js_or_def js_and_def)
  from a have "agree_at lib lib' (get_property progress ''mappings'')" by blast
  then have "getChanges c lib rt fs (fileName ctx) (get_property progress ''mappings'')
               = getChanges c lib' rt fs (fileName ctx) (get_property progress ''mappings'')"
    by (rule getChanges_agree)
  then show "init c lib rt fs ctx progress = init c lib' rt fs ctx progress"
    by (simp add: init_def Let_def m del: get_property.simps)
  fix ctx'
  assume "init c lib rt fs ctx progress = Inr ctx'"
  then show "mappings ctx' = get_property progress ''mappings''"
    by (auto simp: init_def Let_def m simp del: get_property.simps split: sum.splits if_splits)
qed

theorem constructor_mappings_first_witness:
  "truthy (mappings (new_Context ''/repo'' (JObject [(''hello'', JString ''goodbye'')])))
   \<and> agree_at example_tools (example_tools_at (JObject [(''hello'', JString ''goodbye'')]))
       (mappings (new_Context ''/repo'' (JObject [(''hello'', JString ''goodbye'')])))
   \<and> init example_constants example_tools example_runtime (tree_fs rules_tree)
       (new_Context ''/repo'' (JObject [(''hello'', JString ''goodbye'')]))
       (JObject [(''mappings'', JObject [(''hello'', JString ''hi'')])])
     = init example_constants (example_tools_at (JObject [(''hello'', JString ''goodbye'')]))
         example_runtime (tree_fs rules_tree)
         (new_Context ''/repo'' (JObject [(''hello'', JString ''goodbye'')])) JUndefined
   \<and> map_sum message (\<lambda>ctx'. (mappings ctx', rules ctx'))
       (init example_constants example_tools example_runtime (tree_fs rules_tree)
          (new_Context ''/repo'' (JObject [(''hello'', JString ''goodbye'')]))
          (JObject [(''mappings'', JObject [(''hello'', JString ''hi'')])]))
     = Inr (JObject [(''hello'', JString ''goodbye'')],
            JObject [(''welcome'', JObject [(''hello'', JString ''goodbye'')])])
   \<and> \<not> truthy (mappings (new_Context ''/repo'' JNull))
   \<and> truthy (JObject [(''mappings'', JObject [(''hello'', JString ''hi'')])])
   \<and> agree_at example_tools (example_tools_at (JObject [(''hello'', JString ''hi'')]))
       (get_property (JObject [(''mappings'', JObject [(''hello'', JString ''hi'')])]) ''mappings'')
   \<and> init example_constants example_tools example_runtime (tree_fs rules_tree)
       (new_Context ''/repo'' JNull) (JObject [(''mappings'', JObject [(''hello'', JString ''hi'')])])
     = init example_constants (example_tools_at (JObject [(''hello'', JString ''hi'')]))
         example_runtime (tree_fs rules_tree)
         (new_Context ''/repo'' JNull) (JObject [(''mappings'', JObject [(''hello'', JString ''hi'')])])
   \<and> map_sum message (\<lambda>ctx'. (mappings ctx', rules ctx'))
       (init example_constants example_tools example_runtime (tree_fs rules_tree)
          (new_Context ''/repo'' JNull)
          (JObject [(''mappings'', JObject [(''hello'', JString ''hi'')])]))
     = Inr (JObject [(''hello'', JString ''hi'')],
            JObject [(''welcome'', JObject [(''hello'', JString ''hi'')])])"
proof -
  let ?own = "JObject [(''hello'', JString ''goodbye'')]"
  let ?progress = "JObject [(''mappings'', JObject [(''hello'', JString ''hi'')])]"
  have t1: "truthy (mappings (new_Context ''/repo'' ?own))"
    by (simp add: new_Context_def)
  have a1: "agree_at example_tools (example_tools_at ?own) (mappings (new_Context ''/repo'' ?own))"
    by (simp add: agree_at_def example_tools_at_def new_Context_def)
  have r1: "map_sum message (\<lambda>ctx'. (mappings ctx', rules ctx'))
       (init example_constants example_tools example_runtime (tree_fs rules_tree)
          (new_Context ''/repo'' ?own) ?progress)
     = Inr (JObject [(''hello'', JString ''goodbye'')],
            JObject [(''welcome'', JObject [(''hello'', JString ''goodbye'')])])"
    by code_simp
  have t2: "\<not> truthy (mappings (new_Context ''/repo'' JNull))"
    by (simp add: new_Context_def)
  have p2: "truthy ?progress"
    by simp
  have a2: "agree_at example_tools (example_tools_at (JObject [(''hello'', JString ''hi'')]))
       (get_property ?progress ''mappings'')"
    by (simp add: agree_at_def example_tools_at_def)
  have r2: "map_sum message (\<lambda>ctx'. (mappings ctx', rules ctx'))
       (init example_constants example_tools example_runtime (tree_fs rules_tree)
          (new_Context ''/repo'' JNull) ?progress)
     = Inr (JObject [(''hello'', JString ''hi'')],
            JObject [(''welcome'', JObject [(''hello'', JString ''hi'')])])"
    by code_simp
  note first = constructor_mappings_first [where ctx = "new_Context ''/repo'' ?own"
      and lib = example_tools and lib' = "example_tools_at ?own"
      and c = example_constants and rt = example_runtime and fs = "tree_fs rules_tree"
      and progress = ?progress and progress' = JUndefined, THEN conjunct1, THEN mp,
      OF conjI [OF t1 a1], THEN conjunct1]
  note second = constructor_mappings_first [where ctx = "new_Context ''/repo'' JNull"
      and lib = example_tools and lib' = "example_tools_at (JObject [(''hello'', JString ''hi'')])"
      and c = example_constants and rt = example_runtime and fs = "tree_fs rules_tree"
      and progress = ?progress, THEN conjunct2, THEN mp,
      OF conjI [OF t2 conjI [OF p2 a2]], THEN conjunct1]
  show ?thesis
    by (intro conjI t1 a1 first r1 t2 p2 a2 second r2)
qed

section \<open>Sidecar files of clients and resource servers\<close>

text \<open>
  Claim C7, as the code has it. The scan strips the suffix with \<^verbatim>\<open>path.parse\<close>, which takes a
  name that starts with its only dot as a name without extension, and it strips one
  suffix only. A directory that holds only \<^verbatim>\<open>.meta.json\<close>, the sidecar with the empty name,
  gives an entry named \<^verbatim>\<open>.meta\<close>; a directory that holds \<^verbatim>\<open>api.meta.json\<close> and
  \<^verbatim>\<open>api.meta.meta.json\<close> gives an entry named \<^verbatim>\<open>api.meta\<close> next to the entry \<^verbatim>\<open>api\<close>. And
  the table of the scan is a plain object: \<^verbatim>\<open>__proto__.meta.json\<close> gives no entry named
  \<^verbatim>\<open>__proto__\<close>; its contents become the metadata of every entry that has no sidecar of
  its own, here of \<^verbatim>\<open>app\<close>.
\<close>

theorem sidecar_counterexample:
  "getConfigurableConfigs (tree_fs sidecars_tree) [''repo'', ''clients''] ''client''
   = Inr (Some [\<lparr>configurable_name = ''.meta'', configFile = None,
                 metadataFile = Some ''{ nameless }''\<rparr>])
   \<and> getConfigurableConfigs (tree_fs sidecars_tree) [''repo'', ''resource-servers'']
       ''resource server''
     = Inr (Some [\<lparr>configurable_name = ''api'', configFile = None,
                   metadataFile = Some ''{ meta of api }''\<rparr>,
                  \<lparr>configurable_name = ''api.meta'', configFile = None,
                   metadataFile = Some ''{ meta of api.meta }''\<rparr>])
   \<and> readdir (tree_fs sidecars_tree) [''repo'', ''other-clients'']
     = Inr [''__proto__.meta.json'', ''app.json'']
   \<and> getConfigurableConfigs (tree_fs sidecars_tree) [''repo'', ''other-clients''] ''client''
     = Inr (Some [\<lparr>configurable_name = ''app'', configFile = Some ''{ app }'',
                   metadataFile = Some ''{ inherited }''\<rparr>])"
  by code_simp

text \<open>
  Claim C7, amended. In the scan of a clients or resource servers directory whose reads
  succeed, whose listing holds no file named exactly \<^verbatim>\<open>.meta.json\<close> and in which no file
  contributes to an entry named after a member of \<^verbatim>\<open>Object.prototype\<close>: the contents of a
  file \<^verbatim>\<open><name>.meta.json\<close> are the metadata of the entry named \<^verbatim>\<open><name>\<close>; an entry named
  \<^verbatim>\<open><name>.meta\<close> exists only when the directory holds \<^verbatim>\<open><name>.meta.meta.json\<close>, the
  sidecar of that very entry; and the contents of a plain \<^verbatim>\<open><name>.json\<close> are the
  configuration of the entry named \<^verbatim>\<open><name>\<close>. What the scan does with the names of the
  members of \<^verbatim>\<open>Object.prototype\<close> is left open.
\<close>

theorem sidecar_is_metadata:
  assumes listing: "readdir fs dirPath = Inr files"
    and scanned: "getConfigurableConfigs fs dirPath type = Inr (Some result)"
    and named: "''.meta.json'' \<notin> set files"
    and names: "ordinary_configurables files"
  shows
    "(name @ ''.meta.json'' \<in> set files \<longrightarrow>
        (\<exists>entry\<in>set result. configurable_name entry = name
           \<and> (\<exists>s. readFile fs (path_join dirPath (name @ ''.meta.json'')) = Inr s
                  \<and> metadataFile entry = Some s)))
     \<and> ((\<exists>entry\<in>set result. configurable_name entry = name @ ''.meta'') \<longrightarrow>
          name @ ''.meta.meta.json'' \<in> set files)
     \<and> (name @ ''.json'' \<in> set files \<and> name \<noteq> [] \<and> \<not> endsWith name ''.meta'' \<longrightarrow>
        (\<exists>entry\<in>set result. configurable_name entry = name
           \<and> (\<exists>s. readFile fs (path_join dirPath (name @ ''.json'')) = Inr s
                  \<and> configFile entry = Some s)))"
proof (intro conjI impI)
  let ?acc = "foldl (add_configurable_file dirPath) [] files"
  let ?mapper = "\<lambda>configurableName. processConfigurableConfig fs configurableName
                   (field_of no_configurable_files ?acc configurableName)"
  note plain = ordinary_configurables_keys [OF names, of dirPath]
  have mapped: "promise_map ?mapper (object_keys ?acc) = Inr result"
    using getConfigurableConfigs_resolved [OF listing scanned]
    by (simp only: own_keys_plain [OF plain] configurable_entry_plain [OF plain])
  have keys: "set (object_keys ?acc) = {k. \<exists>f\<in>set files. \<exists>b. configurable_role f = Some (k, b)}"
    by (simp add: set_object_keys configurables_keys)
  {
    assume f: "name @ ''.meta.json'' \<in> set files"
    with named have ne: "name \<noteq> []" by auto
    then have role: "configurable_role (name @ ''.meta.json'') = Some (name, True)"
      by (simp add: configurable_role_meta)
    have only: "y = name @ ''.meta.json''"
      if "y \<in> set (rev files)" "configurable_role y = Some (name, True)" for y
      using that named by (auto simp: configurable_role_meta)
    from f have "name @ ''.meta.json'' \<in> set (rev files)" by simp
    then have "List.find (\<lambda>f. configurable_role f = Some (name, True)) (rev files)
               = Some (name @ ''.meta.json'')"
      using role only by (rule find_unique)
    then have meta: "cfg_metadataFileName (field_of no_configurable_files ?acc name)
                     = Some (path_join dirPath (name @ ''.meta.json''))"
      by (simp add: configurables_metadata)
    from f role have kin: "name \<in> set (object_keys ?acc)" unfolding keys by blast
    from promise_map_each [OF mapped kin]
    obtain entry where e: "entry \<in> set result" "?mapper name = Inr entry"
      by blast
    from processConfigurableConfig_resolved(1) [OF e(2)]
      processConfigurableConfig_resolved(2) [OF e(2) meta] e(1)
    show "\<exists>entry\<in>set result. configurable_name entry = name
            \<and> (\<exists>s. readFile fs (path_join dirPath (name @ ''.meta.json'')) = Inr s
                   \<and> metadataFile entry = Some s)"
      by blast
  }
  {
    assume "\<exists>entry\<in>set result. configurable_name entry = name @ ''.meta''"
    then obtain entry where e: "entry \<in> set result" "configurable_name entry = name @ ''.meta''"
      by blast
    from promise_map_from [OF mapped e(1)]
    obtain k where k: "k \<in> set (object_keys ?acc)" "?mapper k = Inr entry" by blast
    from processConfigurableConfig_resolved(1) [OF k(2)] e(2) have "k = name @ ''.meta''" by simp
    with k(1) obtain f b where f: "f \<in> set files" "configurable_role f = Some (name @ ''.meta'', b)"
      unfolding keys by blast
    have "b"
    proof (rule ccontr)
      assume "\<not> b"
      with f(2) have "\<not> endsWith (name @ ''.meta'') ''.meta''"
        by (simp add: configurable_role_config)
      then show False by (simp add: endsWith_iff)
    qed
    with f named have "f = (name @ ''.meta'') @ ''.meta.json''"
      by (auto simp: configurable_role_meta)
    with f(1) show "name @ ''.meta.meta.json'' \<in> set files" by simp
  }
  {
    assume a: "name @ ''.json'' \<in> set files \<and> name \<noteq> [] \<and> \<not> endsWith name ''.meta''"
    then have role: "configurable_role (name @ ''.json'') = Some (name, False)"
      by (simp add: configurable_role_config)
    have only: "y = name @ ''.json''"
      if "y \<in> set (rev files)" "configurable_role y = Some (name, False)" for y
      using that by (simp add: configurable_role_config)
    from a have "name @ ''.json'' \<in> set (rev files)" by simp
    then have "List.find (\<lambda>f. configurable_role f = Some (name, False)) (rev files)
               = Some (name @ ''.json'')"
      using role only by (rule find_unique)
    then have cfg: "configFileName (field_of no_configurable_files ?acc name)
                    = Some (path_join dirPath (name @ ''.json''))"
      by (simp add: configurables_config)
    from a role have kin: "name \<in> set (object_keys ?acc)" unfolding keys by blast
    from promise_map_each [OF mapped kin]
    obtain entry where e: "entry \<in> set result" "?mapper name = Inr entry"
      by blast
    from processConfigurableConfig_resolved(1) [OF e(2)]
      processConfigurableConfig_resolved(3) [OF e(2) cfg] e(1)
    show "\<exists>entry\<in>set result. configurable_name entry = name
            \<and> (\<exists>s. readFile fs (path_join dirPath (name @ ''.json'')) = Inr s
                   \<and> configFile entry = Some s)"
      by blast
  }
qed

theorem sidecar_is_metadata_witness:
  "readdir (tree_fs configurables_tree) [''repo'', ''clients'']
     = Inr [''README.md'', ''someClient2.meta.json'', ''someClient.json'', ''someClient2.json'']
   \<and> getConfigurableConfigs (tree_fs configurables_tree) [''repo'', ''clients''] ''client''
     = Inr (Some
         [\<lparr>configurable_name = ''someClient2'', configFile = Some ''{ someKey: @@somekey@@ }'',
           metadataFile = Some ''{ someMetaKey: someMetaVal }''\<rparr>,
          \<lparr>configurable_name = ''someClient'', configFile = Some ''{ someKey: someVal }'',
           metadataFile = None\<rparr>])
   \<and> ''.meta.json''
       \<notin> set [''README.md'', ''someClient2.meta.json'', ''someClient.json'', ''someClient2.json'']
   \<and> ordinary_configurables
       [''README.md'', ''someClient2.meta.json'', ''someClient.json'', ''someClient2.json'']
   \<and> ''someClient2'' @ ''.meta.json''
       \<in> set [''README.md'', ''someClient2.meta.json'', ''someClient.json'', ''someClient2.json'']
   \<and> (\<exists>entry\<in>set
          [\<lparr>configurable_name = ''someClient2'', configFile = Some ''{ someKey: @@somekey@@ }'',
            metadataFile = Some ''{ someMetaKey: someMetaVal }''\<rparr>,
           \<lparr>configurable_name = ''someClient'', configFile = Some ''{ someKey: someVal }'',
            metadataFile = None\<rparr>].
        configurable_name entry = ''someClient2''
        \<and> (\<exists>s. readFile (tree_fs configurables_tree)
                   (path_join [''repo'', ''clients''] (''someClient2'' @ ''.meta.json'')) = Inr s
               \<and> metadataFile entry = Some s))"
proof -
  have listing: "readdir (tree_fs configurables_tree) [''repo'', ''clients'']
      = Inr [''README.md'', ''someClient2.meta.json'', ''someClient.json'', ''someClient2.json'']"
    by code_simp
  have scanned: "getConfigurableConfigs (tree_fs configurables_tree) [''repo'', ''clients''] ''client''
      = Inr (Some
         [\<lparr>configurable_name = ''someClient2'', configFile = Some ''{ someKey: @@somekey@@ }'',
           metadataFile = Some ''{ someMetaKey: someMetaVal }''\<rparr>,
          \<lparr>configurable_name = ''someClient'', configFile = Some ''{ someKey: someVal }'',
           metadataFile = None\<rparr>])"
    by code_simp
  have named: "''.meta.json''
      \<notin> set [''README.md'', ''someClient2.meta.json'', ''someClient.json'', ''someClient2.json'']"
    by simp
  have names: "ordinary_configurables
      [''README.md'', ''someClient2.meta.json'', ''someClient.json'', ''someClient2.json'']"
    by code_simp
  have present: "''someClient2'' @ ''.meta.json''
      \<in> set [''README.md'', ''someClient2.meta.json'', ''someClient.json'', ''someClient2.json'']"
    by simp
  from sidecar_is_metadata [OF listing scanned named names, of "''someClient2''"] present
  have "\<exists>entry\<in>set
          [\<lparr>configurable_name = ''someClient2'', configFile = Some ''{ someKey: @@somekey@@ }'',
            metadataFile = Some ''{ someMetaKey: someMetaVal }''\<rparr>,
           \<lparr>configurable_name = ''someClient'', configFile = Some ''{ someKey: someVal }'',
            metadataFile = None\<rparr>].
        configurable_name entry = ''someClient2''
        \<and> (\<exists>s. readFile (tree_fs configurables_tree)
                   (path_join [''repo'', ''clients''] (''someClient2'' @ ''.meta.json'')) = Inr s
               \<and> metadataFile entry = Some s)"
    by blast
  with listing scanned named names present show ?thesis by blast
qed

section \<open>The scripts of a database connection\<close>

text \<open>
  Claim C3, as the code has it. The connection directory \<^verbatim>\<open>db1\<close> of the tree below lists
  \<^verbatim>\<open>create.js\<close>, \<^verbatim>\<open>delete.js\<close>, \<^verbatim>\<open>junk.json\<close>, \<^verbatim>\<open>login.JS\<close> and \<^verbatim>\<open>login.js\<close>, and the whitelist
  starts with \<^verbatim>\<open>login\<close>, \<^verbatim>\<open>create\<close>, \<^verbatim>\<open>delete\<close>. With every read completing in the order it was
  issued, the scripts of \<^verbatim>\<open>db1\<close> come out in the order of the listing, not of the
  whitelist, and the two files that give the name \<^verbatim>\<open>login\<close> give two scripts: each file
  read is pushed to the array, nothing is ordered or overwritten by name.
\<close>

theorem scripts_order_counterexample:
  "DATABASE_SCRIPTS example_constants = [''login'', ''create'', ''delete'', ''change_email'', ''get_user'']
   \<and> getDatabases example_constants in_issue_order (tree_fs connections_tree)
       [''repo'', ''database-connections'']
     = Inr (Some
         [\<lparr>database_name = ''db1'',
           scripts = [\<lparr>script_name = ''create'', scriptFile = ''function create() { }''\<rparr>,
                      \<lparr>script_name = ''delete'', scriptFile = ''function delete() { }''\<rparr>,
                      \<lparr>script_name = ''login'', scriptFile = ''function login2() { }''\<rparr>,
                      \<lparr>script_name = ''login'', scriptFile = ''function login() { }''\<rparr>],
           configurationFile = None, configurationFileName = None\<rparr>,
          \<lparr>database_name = ''db2'',
           scripts = [\<lparr>script_name = ''login'', scriptFile = ''function login() { }''\<rparr>],
           configurationFile = Some ''{ }'',
           configurationFileName =
             Some [''repo'', ''database-connections'', ''db2'', ''configuration.json'']\<rparr>])"
  by code_simp

text \<open>
  Claim C3, amended. For every connection in the result of a scan of the database
  connections directory, the names of its scripts are the names \<^verbatim>\<open>getDatabaseFileDetails\<close>
  gives to the recognised script files that its directory lists, one script per file:
  the same names with the same multiplicities for every order in which the listings and
  reads complete, and in the order of the listing when every operation completes in the
  order it was issued.
\<close>

theorem scripts_follow_listing:
  assumes valid: "valid_scheduler sch"
    and dir: "dirPath = path_join root (DATABASE_CONNECTIONS_DIRECTORY c)"
    and listing: "readdir fs dirPath = Inr dirs"
    and entries: "distinct dirs"
    and scanned: "getDatabases c sch fs dirPath = Inr (Some result)"
    and db: "db \<in> set result"
  shows "database_name db \<in> set dirs
     \<and> mset (map script_name (scripts db))
       = mset (recognised_scripts c (listed fs (path_join dirPath (database_name db))))
     \<and> (sch = in_issue_order \<longrightarrow>
          map script_name (scripts db)
          = recognised_scripts c (listed fs (path_join dirPath (database_name db))))"
proof -
  let ?ds = "in_completion_order sch (path_join dirPath) dirs"
  let ?acc = "foldl (scan_connection c fs) [] (map (path_join dirPath) ?ds)"
  let ?mapper = "\<lambda>databaseName. readDatabaseFiles sch fs databaseName
                   (database_entry ?acc databaseName)"
  let ?k = "database_name db"
  have base: "path_basename dirPath = DATABASE_CONNECTIONS_DIRECTORY c"
    by (simp add: dir path_basename_join)
  have mapped: "promise_map ?mapper (own_keys ?acc) = Inr result"
    using listing scanned by (rule getDatabases_resolved)
  from promise_map_from [OF mapped db]
  obtain k where k: "k \<in> set (own_keys ?acc)" and read0: "?mapper k = Inr db" by blast
  from readDatabaseFiles_entry [OF read0] obtain obj where entry: "database_entry ?acc k = Some obj"
    by blast
  then have ord: "k \<notin> set inherited_members"
    by (auto simp: database_entry_def split: if_splits)
  from database_entry_ordinary [OF ord, of ?acc] entry
  have objs: "db_scripts obj = db_scripts (field_of no_database_files ?acc k)"
    by simp
  from read0 entry have read: "readDatabaseFiles sch fs k (Some obj) = Inr db"
    by simp
  from readDatabaseFiles_resolved(1) [OF read] have name: "?k = k" .
  have ds: "mset ?ds = mset dirs" using valid by (rule mset_in_completion_order)
  then have sds: "set ?ds = set dirs" by (rule mset_eq_setD)
  from k have "k \<in> set ?ds"
    by (auto simp: set_own_keys connections_keys [OF base])
  with sds have kd: "k \<in> set dirs" by simp
  have "count_list ?ds k = count (mset ?ds) k" by (simp add: count_mset)
  also have "\<dots> = count (mset dirs) k" by (simp only: ds)
  also from entries kd have "\<dots> = 1" by (simp add: distinct_count_atmost_1)
  finally have once: "count_list ?ds k = 1" .
  have files: "db_scripts obj
               = script_files_of c (path_join dirPath k) (listed fs (path_join dirPath k))"
    by (simp add: objs connections_scripts [OF base ord] once field_of_empty no_database_files_fields)
  have names: "map sf_name (script_files_of c (path_join dirPath k) (listed fs (path_join dirPath k)))
               = recognised_scripts c (listed fs (path_join dirPath k))"
    by (simp add: script_files_of_def recognised_scripts_def comp_def)
  from readDatabaseFiles_names [OF read valid]
  have m: "mset (map script_name (scripts db))
           = mset (recognised_scripts c (listed fs (path_join dirPath ?k)))"
    by (simp only: files names name)
  have "map script_name (scripts db)
        = recognised_scripts c (listed fs (path_join dirPath ?k))"
    if "sch = in_issue_order"
  proof -
    have issue: "in_completion_order sch read_path ops = ops" for ops
      by (simp only: that in_completion_order_issue)
    from readDatabaseFiles_resolved(2) [OF read] show ?thesis
      by (simp only: issue script_reads_database_reads files names name)
  qed
  with kd name m show ?thesis by simp
qed

theorem scripts_follow_listing_witness:
  "valid_scheduler in_reverse_order
   \<and> [''repo'', ''database-connections'']
       = path_join [''repo''] (DATABASE_CONNECTIONS_DIRECTORY example_constants)
   \<and> readdir (tree_fs connections_tree) [''repo'', ''database-connections'']
       = Inr [''.DSStore'', ''db1'', ''db2'']
   \<and> distinct [''.DSStore'', ''db1'', ''db2'']
   \<and> getDatabases example_constants in_reverse_order (tree_fs connections_tree)
       [''repo'', ''database-connections'']
     = Inr (Some
         [\<lparr>database_name = ''db2'',
           scripts = [\<lparr>script_name = ''login'', scriptFile = ''function login() { }''\<rparr>],
           configurationFile = Some ''{ }'',
           configurationFileName =
             Some [''repo'', ''database-connections'', ''db2'', ''configuration.json'']\<rparr>,
          \<lparr>database_name = ''db1'',
           scripts = [\<lparr>script_name = ''login'', scriptFile = ''function login() { }''\<rparr>,
                      \<lparr>script_name = ''login'', scriptFile = ''function login2() { }''\<rparr>,
                      \<lparr>script_name = ''delete'', scriptFile = ''function delete() { }''\<rparr>,
                      \<lparr>script_name = ''create'', scriptFile = ''function create() { }''\<rparr>],
           configurationFile = None, configurationFileName = None\<rparr>])
   \<and> recognised_scripts example_constants
       (listed (tree_fs connections_tree) (path_join [''repo'', ''database-connections''] ''db1''))
     = [''create'', ''delete'', ''login'', ''login'']
   \<and> mset [''login'', ''login'', ''delete'', ''create'']
     = mset (recognised_scripts example_constants
         (listed (tree_fs connections_tree) (path_join [''repo'', ''database-connections''] ''db1'')))"
proof -
  have dir: "[''repo'', ''database-connections'']
      = path_join [''repo''] (DATABASE_CONNECTIONS_DIRECTORY example_constants)"
    by code_simp
  have listing: "readdir (tree_fs connections_tree) [''repo'', ''database-connections'']
      = Inr [''.DSStore'', ''db1'', ''db2'']"
    by code_simp
  have entries: "distinct [''.DSStore'', ''db1'', ''db2'']"
    by simp
  have scanned: "getDatabases example_constants in_reverse_order (tree_fs connections_tree)
       [''repo'', ''database-connections'']
     = Inr (Some
         [\<lparr>database_name = ''db2'',
           scripts = [\<lparr>script_name = ''login'', scriptFile = ''function login() { }''\<rparr>],
           configurationFile = Some ''{ }'',
           configurationFileName =
             Some [''repo'', ''database-connections'', ''db2'', ''configuration.json'']\<rparr>,
          \<lparr>database_name = ''db1'',
           scripts = [\<lparr>script_name = ''login'', scriptFile = ''function login() { }''\<rparr>,
                      \<lparr>script_name = ''login'', scriptFile = ''function login2() { }''\<rparr>,
                      \<lparr>script_name = ''delete'', scriptFile = ''function delete() { }''\<rparr>,
                      \<lparr>script_name = ''create'', scriptFile = ''function create() { }''\<rparr>],
           configurationFile = None, configurationFileName = None\<rparr>])"
    by code_simp
  have recognised: "recognised_scripts example_constants
       (listed (tree_fs connections_tree) (path_join [''repo'', ''database-connections''] ''db1''))
     = [''create'', ''delete'', ''login'', ''login'']"
    by code_simp
  from scripts_follow_listing [OF valid_in_reverse_order dir listing entries scanned,
      of "\<lparr>database_name = ''db1'',
           scripts = [\<lparr>script_name = ''login'', scriptFile = ''function login() { }''\<rparr>,
                      \<lparr>script_name = ''login'', scriptFile = ''function login2() { }''\<rparr>,
                      \<lparr>script_name = ''delete'', scriptFile = ''function delete() { }''\<rparr>,
                      \<lparr>script_name = ''create'', scriptFile = ''function create() { }''\<rparr>],
           configurationFile = None, configurationFileName = None\<rparr>"]
  have "mset [''login'', ''login'', ''delete'', ''create'']
     = mset (recognised_scripts example_constants
         (listed (tree_fs connections_tree) (path_join [''repo'', ''database-connections''] ''db1'')))"
    by simp
  with valid_in_reverse_order dir listing entries scanned recognised show ?thesis
    by blast
qed

section \<open>A connection directory that cannot be listed\<close>

lemma ordinary_connections_assembled:
  assumes valid: "valid_scheduler sch"
    and dir: "dirPath = path_join root (DATABASE_CONNECTIONS_DIRECTORY c)"
    and listing: "readdir fs dirPath = Inr dirs"
    and entries: "distinct dirs"
    and names: "ordinary_connections dirs"
    and bad: "readdir fs (path_join dirPath bad) = Inl e"
    and readable: "recognised_readable c fs dirPath dirs"
  shows "\<exists>result. getDatabases c sch fs dirPath = Inr (Some result)
           \<and> bad \<notin> database_name ` set result
           \<and> (\<forall>good\<in>set dirs.
                 (\<exists>f\<in>set (listed fs (path_join dirPath good)). is_script c f \<or> is_configuration f)
                 \<longrightarrow> (\<exists>db\<in>set result. database_name db = good
                        \<and> mset (scripts db)
                          = image_mset
                              (\<lambda>s. \<lparr>script_name = sf_name s,
                                    scriptFile = file_contents fs (sf_scriptFileName s)\<rparr>)
                              (mset (script_files_of c (path_join dirPath good)
                                       (listed fs (path_join dirPath good))))
                        \<and> configurationFileName db
                          = map_option (path_join (path_join dirPath good))
                              (List.find is_configuration (rev (listed fs (path_join dirPath good))))
                        \<and> configurationFile db
                          = map_option (file_contents fs) (configurationFileName db)))"
proof -
  let ?ds = "in_completion_order sch (path_join dirPath) dirs"
  let ?acc = "foldl (scan_connection c fs) [] (map (path_join dirPath) ?ds)"
  let ?mapper = "\<lambda>databaseName. readDatabaseFiles sch fs databaseName
                   (database_entry ?acc databaseName)"
  have base: "path_basename dirPath = DATABASE_CONNECTIONS_DIRECTORY c"
    by (simp add: dir path_basename_join)
  from names have ord: "\<forall>d\<in>set dirs. d \<notin> set inherited_members"
    by (simp add: ordinary_connections_def ordinary_def list_all_iff)
  have ok: "\<forall>d\<in>set dirs. \<forall>f\<in>set (listed fs (path_join dirPath d)).
              is_script c f \<or> is_configuration f
              \<longrightarrow> (\<exists>s. readFile fs (path_join (path_join dirPath d) f) = Inr s)"
  proof (intro ballI impI)
    fix d f
    assume "d \<in> set dirs" "f \<in> set (listed fs (path_join dirPath d))"
      and "is_script c f \<or> is_configuration f"
    with readable
    have "case readFile fs (path_join (path_join dirPath d) f) of Inl _ \<Rightarrow> False | Inr _ \<Rightarrow> True"
      by (auto simp: recognised_readable_def list_all_iff)
    then show "\<exists>s. readFile fs (path_join (path_join dirPath d) f) = Inr s"
      by (cases "readFile fs (path_join (path_join dirPath d) f)") simp_all
  qed
  from getDatabases_ordinary [OF valid dir listing ord ok]
  obtain result where res: "getDatabases c sch fs dirPath = Inr (Some result)"
    and found: "database_name ` set result
                = {d \<in> set dirs. \<exists>f\<in>set (listed fs (path_join dirPath d)).
                                   is_script c f \<or> is_configuration f}"
    by blast
  from bad have "listed fs (path_join dirPath bad) = []" by (simp add: listed_def)
  with found have skipped: "bad \<notin> database_name ` set result" by auto
  have mapped: "promise_map ?mapper (own_keys ?acc) = Inr result"
    using listing res by (rule getDatabases_resolved)
  have ds: "mset ?ds = mset dirs" using valid by (rule mset_in_completion_order)
  then have sds: "set ?ds = set dirs" by (rule mset_eq_setD)
  with ord have ord': "\<forall>d\<in>set ?ds. d \<notin> set inherited_members" by simp
  note plain = ordinary_table(1) [OF base ord', where fs = fs]
  have assembled: "\<exists>db\<in>set result. database_name db = good
         \<and> mset (scripts db)
           = image_mset
               (\<lambda>s. \<lparr>script_name = sf_name s, scriptFile = file_contents fs (sf_scriptFileName s)\<rparr>)
               (mset (script_files_of c (path_join dirPath good) (listed fs (path_join dirPath good))))
         \<and> configurationFileName db
           = map_option (path_join (path_join dirPath good))
               (List.find is_configuration (rev (listed fs (path_join dirPath good))))
         \<and> configurationFile db = map_option (file_contents fs) (configurationFileName db)"
    if good: "good \<in> set dirs"
      and some: "\<exists>f\<in>set (listed fs (path_join dirPath good)). is_script c f \<or> is_configuration f"
    for good
  proof -
    let ?obj = "field_of no_database_files ?acc good"
    from good some have "good \<in> {d \<in> set dirs. \<exists>f\<in>set (listed fs (path_join dirPath d)).
                                        is_script c f \<or> is_configuration f}"
      by simp
    with found have "good \<in> database_name ` set result"
      by (simp only:)
    then obtain db where db: "db \<in> set result" "database_name db = good"
      by blast
    from promise_map_from [OF mapped db(1)]
    obtain k where k: "k \<in> set (own_keys ?acc)" and read0: "?mapper k = Inr db" by blast
    from readDatabaseFiles_entry [OF read0] obtain obj where entry: "database_entry ?acc k = Some obj"
      by blast
    with read0 have "readDatabaseFiles sch fs k (Some obj) = Inr db" by simp
    from readDatabaseFiles_resolved(1) [OF this] db(2) have kg: "k = good" by simp
    from good ord have og: "good \<notin> set inherited_members" by blast
    from read0 have read: "readDatabaseFiles sch fs good (Some ?obj) = Inr db"
      by (simp add: kg database_entry_plain [OF og plain])
    have "count_list ?ds good = count (mset ?ds) good" by (simp add: count_mset)
    also have "\<dots> = count (mset dirs) good" by (simp only: ds)
    also from entries good have "\<dots> = 1" by (simp add: distinct_count_atmost_1)
    finally have once: "count_list ?ds good = 1" .
    have files: "db_scripts ?obj
                 = script_files_of c (path_join dirPath good) (listed fs (path_join dirPath good))"
      by (simp add: connections_scripts [OF base og] once field_of_empty no_database_files_fields)
    from good sds have "good \<in> set ?ds" by simp
    then have cfg: "db_configurationFileName ?obj
               = map_option (path_join (path_join dirPath good))
                   (List.find is_configuration (rev (listed fs (path_join dirPath good))))"
      by (simp add: connections_configuration [OF base og] field_of_empty no_database_files_fields
          split: option.splits)
    from readDatabaseFiles_loaded(2-4) [OF valid read] db show ?thesis
      by (auto simp only: files cfg)
  qed
  from res skipped assembled show ?thesis by blast
qed

text \<open>
  Claim C6, where the code departs from it. The listing of each connection directory has
  its own \<^verbatim>\<open>.catch\<close>, which logs and goes on, and for connections with ordinary names the
  scan does what the claim says (lemma \<open>ordinary_connections_assembled\<close>). The table of the
  connections, however, is a plain object. In the directory below, \<^verbatim>\<open>.DSStore\<close> is a file,
  so its listing fails, and the valid connection \<^verbatim>\<open>db2\<close> has a sibling named
  \<^verbatim>\<open>constructor\<close> that holds \<^verbatim>\<open>login.js\<close>: \<^verbatim>\<open>databases['constructor']\<close> is the inherited
  function, no entry is made for it, the name becomes a key all the same, and
  \<^verbatim>\<open>readDatabaseFiles\<close> throws on it. The whole scan rejects, for either order of
  completion, while without that sibling it resolves with \<^verbatim>\<open>db2\<close>.
\<close>

theorem inherited_name_aborts_scan:
  "readdir (tree_fs constructor_tree) [''repo'', ''database-connections'']
     = Inr [''.DSStore'', ''constructor'', ''db2'']
   \<and> map_sum code (\<lambda>files. files)
       (readdir (tree_fs constructor_tree) [''repo'', ''database-connections'', ''.DSStore''])
     = Inl (Some ''ENOTDIR'')
   \<and> map_sum message (\<lambda>result. result)
       (getDatabases example_constants in_issue_order (tree_fs constructor_tree)
          [''repo'', ''database-connections''])
     = Inl ''Couldn't process database scripts directory because: Cannot read property 'forEach' of undefined''
   \<and> map_sum message (\<lambda>result. result)
       (getDatabases example_constants in_reverse_order (tree_fs constructor_tree)
          [''repo'', ''database-connections''])
     = Inl ''Couldn't process database scripts directory because: Cannot read property 'forEach' of undefined''
   \<and> getDatabases example_constants in_issue_order (tree_fs skipped_tree)
       [''repo'', ''database-connections'']
     = Inr (Some
         [\<lparr>database_name = ''db2'',
           scripts = [\<lparr>script_name = ''login'', scriptFile = ''function login() { }''\<rparr>],
           configurationFile = Some ''{ }'',
           configurationFileName =
             Some [''repo'', ''database-connections'', ''db2'', ''configuration.json'']\<rparr>])"
  by code_simp

section \<open>Reads in flight within one collector\<close>

text \<open>
  Claim C9, as the code has it. The option \<^verbatim>\<open>{concurrency: 2}\<close> limits the calls of the
  mapper that are pending, not the reads: a mapper issues the reads of all the files of
  its entity at once. With two rules that each have a script and a metadata file, the two
  calls of \<^verbatim>\<open>processRule\<close> that \<^verbatim>\<open>Promise.map\<close> makes at the start leave four reads in flight;
  a single call of \<^verbatim>\<open>readDatabaseFiles\<close> for a connection with four scripts leaves four
  reads in flight; and so do the two calls for two connections of one script each beside
  a directory \<^verbatim>\<open>__proto__\<close> with a configuration file, which every connection then reads.
\<close>

theorem reads_in_flight_counterexample:
  "map_option (\<lambda>s. map outstanding (pending s))
     (getRules_map (tree_fs populated_tree) [''repo'', ''rules''] [Invoke 0, Invoke 0])
   = Some [[Primary [''repo'', ''rules'', ''first.js''], Sidecar [''repo'', ''rules'', ''first.json'']],
           [Primary [''repo'', ''rules'', ''second.js''],
            Sidecar [''repo'', ''rules'', ''second.json'']]]
   \<and> map_option in_flight
         (getRules_map (tree_fs populated_tree) [''repo'', ''rules''] [Invoke 0, Invoke 0])
     = Some 4
   \<and> map_option (\<lambda>s. map (map read_path \<circ> outstanding) (pending s))
         (getDatabases_map example_constants in_issue_order (tree_fs connections_tree)
            [''repo'', ''database-connections''] [Invoke 0])
     = Some [[[''repo'', ''database-connections'', ''db1'', ''create.js''],
              [''repo'', ''database-connections'', ''db1'', ''delete.js''],
              [''repo'', ''database-connections'', ''db1'', ''login.JS''],
              [''repo'', ''database-connections'', ''db1'', ''login.js'']]]
   \<and> map_option in_flight
         (getDatabases_map example_constants in_issue_order (tree_fs connections_tree)
            [''repo'', ''database-connections''] [Invoke 0])
     = Some 4
   \<and> map_option (\<lambda>s. map (map read_path \<circ> outstanding) (pending s))
         (getDatabases_map example_constants in_issue_order (tree_fs inherited_configuration_tree)
            [''repo'', ''database-connections''] [Invoke 0, Invoke 0])
     = Some [[[''repo'', ''database-connections'', ''db1'', ''login.js''],
              [''repo'', ''database-connections'', ''__proto__'', ''configuration.json'']],
             [[''repo'', ''database-connections'', ''db2'', ''login.js''],
              [''repo'', ''database-connections'', ''__proto__'', ''configuration.json'']]]
   \<and> map_option in_flight
         (getDatabases_map example_constants in_issue_order (tree_fs inherited_configuration_tree)
            [''repo'', ''database-connections''] [Invoke 0, Invoke 0])
     = Some 4"
  by code_simp

text \<open>
  Claim C9, amended. \<^verbatim>\<open>Promise.map\<close> calls the mapper only while fewer than 2 calls are
  pending; this is the library's contract, which the runs of the model follow. What the
  mappers of the program make of it: in every state that the \<^verbatim>\<open>Promise.map\<close> of a collector
  can reach, for every listing and whatever the number of entities, the reads in flight
  are at most 4 for rules, for clients and resource servers, for pages and for email
  templates, at most 2 for email providers, and at most twice the number of files that
  the largest connection has to read for database connections.
\<close>

theorem reads_in_flight_bounded:
  "(getRules_map fs dirPath evs = Some rs \<longrightarrow> in_flight rs \<le> 4)
   \<and> (getConfigurableConfigs_map fs dirPath evs = Some cs \<longrightarrow>
        in_flight cs \<le> 4)
   \<and> (getPages_map c fs dirPath evs = Some ps \<longrightarrow> in_flight ps \<le> 4)
   \<and> (getEmailTemplates_map c fs dirPath evs = Some ts \<longrightarrow>
        in_flight ts \<le> 4)
   \<and> (getEmailProviders_map c fs dirPath evs = Some es \<longrightarrow>
        in_flight es \<le> 2)
   \<and> (readdir fs dirPath = Inr dirs \<longrightarrow> getDatabases_map c sch fs dirPath evs = Some ds \<longrightarrow>
        in_flight ds \<le> 2 * largest_connection (connections_table c sch fs dirPath dirs))"
proof (intro conjI impI)
  assume "getRules_map fs dirPath evs = Some rs"
  then obtain table where
    "run 2 (rules_mapping table) fs evs (start (own_keys table)) = Some rs"
    by (auto simp: getRules_map_def Let_def split: sum.splits)
  from run_bounded [OF _ this, of 2] processRule_reads_bounded
  show "in_flight rs \<le> 4"
    by (simp add: rules_mapping_def)
next
  assume "getConfigurableConfigs_map fs dirPath evs = Some cs"
  then obtain table where
    "run 2 (configurables_mapping table) fs evs (start (own_keys table)) = Some cs"
    by (auto simp: getConfigurableConfigs_map_def Let_def split: sum.splits)
  from run_bounded [OF _ this, of 2] processConfigurableConfig_reads_bounded
  show "in_flight cs \<le> 4"
    by (simp add: configurables_mapping_def)
next
  assume "getPages_map c fs dirPath evs = Some ps"
  then obtain table where
    "run 2 (pages_mapping table) fs evs (start (own_keys table)) = Some ps"
    by (auto simp: getPages_map_def Let_def split: sum.splits)
  from run_bounded [OF _ this, of 2] processPage_reads_bounded
  show "in_flight ps \<le> 4"
    by (simp add: pages_mapping_def)
next
  assume "getEmailTemplates_map c fs dirPath evs = Some ts"
  then obtain table where
    "run 2 (pages_mapping table) fs evs (start (own_keys table)) = Some ts"
    by (auto simp: getEmailTemplates_map_def Let_def split: sum.splits)
  from run_bounded [OF _ this, of 2] processPage_reads_bounded
  show "in_flight ts \<le> 4"
    by (simp add: pages_mapping_def)
next
  assume "getEmailProviders_map c fs dirPath evs = Some es"
  then obtain table where
    "run 2 (providers_mapping table) fs evs (start (own_keys table)) = Some es"
    by (auto simp: getEmailProviders_map_def Let_def split: sum.splits)
  from run_bounded [OF _ this, of 1] processEmailProvider_reads_bounded
  show "in_flight es \<le> 2"
    by (simp add: providers_mapping_def)
next
  let ?table = "connections_table c sch fs dirPath dirs"
  assume "readdir fs dirPath = Inr dirs" and "getDatabases_map c sch fs dirPath evs = Some ds"
  then have run: "run 2 (databases_mapping ?table) fs evs (start (own_keys ?table)) = Some ds"
    by (simp add: getDatabases_map_def Let_def)
  have "\<forall>k\<in>set (own_keys ?table). \<forall>reads object.
          called (databases_mapping ?table) k = Inr (reads, object)
          \<longrightarrow> length reads \<le> largest_connection ?table"
    using largest_connection_bound [of _ ?table]
    by (auto simp: databases_mapping_def split: option.splits)
  from run_bounded [OF this run]
  show "in_flight ds \<le> 2 * largest_connection ?table" .
qed

theorem reads_in_flight_bounded_witness:
  "(\<exists>s. getRules_map (tree_fs populated_tree) [''repo'', ''rules''] [Invoke 0, Invoke 0] = Some s
        \<and> in_flight s \<le> 4)
   \<and> (\<exists>s. getConfigurableConfigs_map (tree_fs populated_tree) [''repo'', ''clients''] [Invoke 0]
            = Some s
          \<and> in_flight s \<le> 4)
   \<and> (\<exists>s. getPages_map example_constants (tree_fs populated_tree) [''repo'', ''pages'']
              [Invoke 0, Invoke 0] = Some s
          \<and> in_flight s \<le> 4)
   \<and> (\<exists>s. getEmailTemplates_map example_constants (tree_fs populated_tree) [''repo'', ''emails'']
              [Invoke 0] = Some s
          \<and> in_flight s \<le> 4)
   \<and> (\<exists>s. getEmailProviders_map example_constants (tree_fs populated_tree)
              [''repo'', ''email-providers''] [Invoke 0] = Some s
          \<and> in_flight s \<le> 2)
   \<and> readdir (tree_fs populated_tree) [''repo'', ''database-connections''] = Inr [''db1'']
   \<and> largest_connection
         (connections_table example_constants in_issue_order (tree_fs populated_tree)
            [''repo'', ''database-connections''] [''db1'']) = 3
   \<and> (\<exists>s. getDatabases_map example_constants in_issue_order (tree_fs populated_tree)
              [''repo'', ''database-connections''] [Invoke 0] = Some s
          \<and> in_flight s \<le> 2 * 3)"
proof -
  have "getRules_map (tree_fs populated_tree) [''repo'', ''rules''] [Invoke 0, Invoke 0] \<noteq> None"
    by code_simp
  then obtain s1 where s1:
    "getRules_map (tree_fs populated_tree) [''repo'', ''rules''] [Invoke 0, Invoke 0] = Some s1"
    by (rule not_None_eq [THEN iffD1, THEN exE])
  note b1 = reads_in_flight_bounded [THEN conjunct1, THEN mp, OF s1]
  have "getConfigurableConfigs_map (tree_fs populated_tree) [''repo'', ''clients''] [Invoke 0]
        \<noteq> None"
    by code_simp
  then obtain s2 where s2:
    "getConfigurableConfigs_map (tree_fs populated_tree) [''repo'', ''clients''] [Invoke 0] = Some s2"
    by (rule not_None_eq [THEN iffD1, THEN exE])
  note b2 = reads_in_flight_bounded [THEN conjunct2, THEN conjunct1, THEN mp, OF s2]
  have "getPages_map example_constants (tree_fs populated_tree) [''repo'', ''pages'']
          [Invoke 0, Invoke 0] \<noteq> None"
    by code_simp
  then obtain s3 where s3:
    "getPages_map example_constants (tree_fs populated_tree) [''repo'', ''pages'']
       [Invoke 0, Invoke 0] = Some s3"
    by (rule not_None_eq [THEN iffD1, THEN exE])
  note b3 = reads_in_flight_bounded [THEN conjunct2, THEN conjunct2, THEN conjunct1, THEN mp, OF s3]
  have "getEmailTemplates_map example_constants (tree_fs populated_tree) [''repo'', ''emails'']
          [Invoke 0] \<noteq> None"
    by code_simp
  then obtain s4 where s4:
    "getEmailTemplates_map example_constants (tree_fs populated_tree) [''repo'', ''emails'']
       [Invoke 0] = Some s4"
    by (rule not_None_eq [THEN iffD1, THEN exE])
  note b4 = reads_in_flight_bounded
    [THEN conjunct2, THEN conjunct2, THEN conjunct2, THEN conjunct1, THEN mp, OF s4]
  have "getEmailProviders_map example_constants (tree_fs populated_tree)
          [''repo'', ''email-providers''] [Invoke 0] \<noteq> None"
    by code_simp
  then obtain s5 where s5:
    "getEmailProviders_map example_constants (tree_fs populated_tree)
       [''repo'', ''email-providers''] [Invoke 0] = Some s5"
    by (rule not_None_eq [THEN iffD1, THEN exE])
  note b5 = reads_in_flight_bounded
    [THEN conjunct2, THEN conjunct2, THEN conjunct2, THEN conjunct2, THEN conjunct1, THEN mp, OF s5]
  have listing: "readdir (tree_fs populated_tree) [''repo'', ''database-connections''] = Inr [''db1'']"
    by code_simp
  have largest: "largest_connection
         (connections_table example_constants in_issue_order (tree_fs populated_tree)
            [''repo'', ''database-connections''] [''db1'']) = 3"
    by code_simp
  have "getDatabases_map example_constants in_issue_order (tree_fs populated_tree)
          [''repo'', ''database-connections''] [Invoke 0] \<noteq> None"
    by code_simp
  then obtain s6 where s6:
    "getDatabases_map example_constants in_issue_order (tree_fs populated_tree)
       [''repo'', ''database-connections''] [Invoke 0] = Some s6"
    by (rule not_None_eq [THEN iffD1, THEN exE])
  note b6 = reads_in_flight_bounded
    [THEN conjunct2, THEN conjunct2, THEN conjunct2, THEN conjunct2, THEN conjunct2, THEN mp,
     OF listing, THEN mp, OF s6, unfolded largest]
  show ?thesis
    by (intro conjI exI [of _ s1] exI [of _ s2] exI [of _ s3] exI [of _ s4] exI [of _ s5]
          exI [of _ s6] s1 s2 s3 s4 s5 s6 listing largest
          b1 b2 b3 b4 b5 b6)
qed

end
